theory Spec2Isabelle
  imports Main
begin

section \<open>Strings and errors\<close>

text \<open>
  A Go string is a sequence of bytes, here a \<^typ>\<open>string\<close> (a list of 8-bit characters).
  The code calls \<^verbatim>\<open>strings.ToLower\<close> and \<^verbatim>\<open>strings.Fields\<close> of the standard library;
  both read the string as UTF-8. They are modelled with the decoder and the encoder of
  the package \<^verbatim>\<open>unicode/utf8\<close> and with \<^verbatim>\<open>unicode.IsSpace\<close>. The case table of the
  package \<^verbatim>\<open>unicode\<close> beyond ASCII, whose content depends on the Unicode version of the
  Go release, is a parameter of the model.
\<close>

datatype error =
    ErrorNew string  \<comment> \<open>\<^verbatim>\<open>errors.New(msg)\<close> / \<^verbatim>\<open>errors.Errorf\<close>: an error carrying a message\<close>
  | ErrUserExists
  | ErrUserDoesntExist
  | ErrGroupExists
  | ErrGroupDoesntExist
  | ErrKeyNotFound  \<comment> \<open>\<^verbatim>\<open>badger.ErrKeyNotFound\<close>\<close>
  | Panic  \<comment> \<open>a Go run-time panic (index out of range)\<close>

definition quoted :: "string \<Rightarrow> string" where
  "quoted s = CHR 0x27 # s @ [CHR 0x27]"

subsection \<open>UTF-8\<close>

text \<open>A rune is a code point; the decoder never yields a negative one.\<close>

type_synonym rune = nat

definition RuneError :: rune where
  "RuneError = 0xFFFD"

text \<open>
  \<^verbatim>\<open>utf8.DecodeRuneInString\<close>: the first rune of the string and its width in bytes. The
  first byte gives the size of the encoding and the range accepted for the second byte
  (the tables \<^verbatim>\<open>first\<close> and \<^verbatim>\<open>acceptRanges\<close>): \<^verbatim>\<open>00..7F\<close> is ASCII, \<^verbatim>\<open>C2..DF\<close> starts two
  bytes, \<^verbatim>\<open>E0..EF\<close> three, \<^verbatim>\<open>F0..F4\<close> four, every other byte is invalid. An invalid or
  short encoding gives \<^verbatim>\<open>RuneError\<close> with the width 1. The bytes \<open>s ! 1\<close>, \<open>s ! 2\<close>,
  \<open>s ! 3\<close> are read after the test of the length only.
\<close>

definition DecodeRune :: "string \<Rightarrow> rune \<times> nat" where
  "DecodeRune s =
     (case s of
        [] \<Rightarrow> (RuneError, 0)
      | c0 # cs \<Rightarrow>
          (let s0 = (of_char c0 :: nat) in
           if s0 < 0x80 then (s0, 1)
           else if s0 < 0xC2 \<or> 0xF4 < s0 then (RuneError, 1)
           else
             (let sz = (if s0 < 0xE0 then 2 else if s0 < 0xF0 then 3 else 4 :: nat);
                  lo = (if s0 = 0xE0 then 0xA0 else if s0 = 0xF0 then 0x90 else 0x80 :: nat);
                  hi = (if s0 = 0xED then 0x9F else if s0 = 0xF4 then 0x8F else 0xBF :: nat)
              in if length s < sz then (RuneError, 1)
                 else
                   (let s1 = (of_char (s ! 1) :: nat) in
                    if s1 < lo \<or> hi < s1 then (RuneError, 1)
                    else if sz \<le> 2 then ((s0 mod 32) * 64 + s1 mod 64, 2)
                    else
                      (let s2 = (of_char (s ! 2) :: nat) in
                       if s2 < 0x80 \<or> 0xBF < s2 then (RuneError, 1)
                       else if sz \<le> 3 then
                         ((s0 mod 16) * 4096 + (s1 mod 64) * 64 + s2 mod 64, 3)
                       else
                         (let s3 = (of_char (s ! 3) :: nat) in
                          if s3 < 0x80 \<or> 0xBF < s3 then (RuneError, 1)
                          else ((s0 mod 8) * 262144 + (s1 mod 64) * 4096
                                  + (s2 mod 64) * 64 + s3 mod 64, 4)))))))"

text \<open>
  \<^verbatim>\<open>for i, c := range s\<close>: the runes of a string, each with the bytes it was decoded
  from. The width of a rune is at least 1, so the rest of the string after the rune of
  \<open>c # cs\<close> is \<open>cs\<close> without width - 1 bytes.
\<close>

fun runes :: "string \<Rightarrow> (rune \<times> string) list" where
  "runes [] = []"
| "runes (c # cs) =
     (fst (DecodeRune (c # cs)), take (snd (DecodeRune (c # cs))) (c # cs))
       # runes (drop (snd (DecodeRune (c # cs)) - 1) cs)"

text \<open>
  \<^verbatim>\<open>utf8.EncodeRune\<close> (and \<^verbatim>\<open>Builder.WriteRune\<close>): a surrogate and a rune beyond
  \<^verbatim>\<open>U+10FFFF\<close> are written as \<^verbatim>\<open>RuneError\<close>, that is \<^verbatim>\<open>EF BF BD\<close>.
\<close>

definition EncodeRune :: "rune \<Rightarrow> string" where
  "EncodeRune r =
     (if r \<le> 0x7F then [char_of r]
      else if r \<le> 0x7FF then [char_of (0xC0 + r div 64), char_of (0x80 + r mod 64)]
      else if 0x10FFFF < r \<or> (0xD800 \<le> r \<and> r \<le> 0xDFFF) then [CHR 0xEF, CHR 0xBF, CHR 0xBD]
      else if r \<le> 0xFFFF then
        [char_of (0xE0 + r div 4096), char_of (0x80 + (r div 64) mod 64),
         char_of (0x80 + r mod 64)]
      else
        [char_of (0xF0 + r div 262144), char_of (0x80 + (r div 4096) mod 64),
         char_of (0x80 + (r div 64) mod 64), char_of (0x80 + r mod 64)])"

text \<open>Is every byte below \<^verbatim>\<open>utf8.RuneSelf\<close>, that is \<^verbatim>\<open>0x80\<close>?\<close>

definition is_ascii :: "string \<Rightarrow> bool" where
  "is_ascii s = list_all (\<lambda>c. (of_char c :: nat) < 0x80) s"

subsection \<open>\<^verbatim>\<open>strings.ToLower\<close>\<close>

text \<open>
  \<^verbatim>\<open>unicode.ToLower\<close>: ASCII is done by the code itself; every other rune is looked up in
  the case table \<open>T\<close> (\<^verbatim>\<open>unicode.To(unicode.LowerCase, r)\<close>).
\<close>

definition unicode_ToLower :: "(rune \<Rightarrow> rune) \<Rightarrow> rune \<Rightarrow> rune" where
  "unicode_ToLower T r =
     (if r \<le> 0x7F then (if 0x41 \<le> r \<and> r \<le> 0x5A then r + 0x20 else r) else T r)"

text \<open>
  \<^verbatim>\<open>strings.Map\<close>. The first loop skips the runes that the mapping leaves alone; at the
  first other rune, the bytes read so far are copied and the second loop writes the
  encoding of the image of every rune from there on. A byte that is no valid encoding
  is the rune \<^verbatim>\<open>RuneError\<close> of width 1 and never skipped.
\<close>

fun Map_rest :: "(rune \<Rightarrow> rune) \<Rightarrow> (rune \<times> string) list \<Rightarrow> string" where
  "Map_rest m [] = []"
| "Map_rest m (x # xs) = EncodeRune (m (fst x)) @ Map_rest m xs"

fun Map_scan :: "(rune \<Rightarrow> rune) \<Rightarrow> (rune \<times> string) list \<Rightarrow> string" where
  "Map_scan m [] = []"
| "Map_scan m (x # xs) =
     (if m (fst x) = fst x \<and> fst x \<noteq> RuneError then snd x @ Map_scan m xs
      else if fst x = RuneError \<and> length (snd x) \<noteq> 1 \<and> m (fst x) = fst x
        then snd x @ Map_scan m xs
      else EncodeRune (m (fst x)) @ Map_rest m xs)"

definition Map :: "(rune \<Rightarrow> rune) \<Rightarrow> string \<Rightarrow> string" where
  "Map m s = Map_scan m (runes s)"

text \<open>The ASCII path of \<^verbatim>\<open>strings.ToLower\<close>: \<^verbatim>\<open>A..Z\<close> become \<^verbatim>\<open>a..z\<close>.\<close>

definition lower_byte :: "char \<Rightarrow> char" where
  "lower_byte c =
     (if 0x41 \<le> (of_char c :: nat) \<and> (of_char c :: nat) \<le> 0x5A
      then char_of ((of_char c :: nat) + 0x20) else c)"

definition ToLower :: "(rune \<Rightarrow> rune) \<Rightarrow> string \<Rightarrow> string" where
  "ToLower T s = (if is_ascii s then map lower_byte s else Map (unicode_ToLower T) s)"

subsection \<open>\<^verbatim>\<open>strings.Fields\<close>\<close>

text \<open>\<^verbatim>\<open>unicode.IsSpace\<close>: the Latin-1 cases and the table \<^verbatim>\<open>White_Space\<close>.\<close>

definition IsSpace :: "rune \<Rightarrow> bool" where
  "IsSpace r =
     (if r \<le> 0xFF then r \<in> set [0x09, 0x0A, 0x0B, 0x0C, 0x0D, 0x20, 0x85, 0xA0]
      else r = 0x1680 \<or> (0x2000 \<le> r \<and> r \<le> 0x200A) \<or> r = 0x2028 \<or> r = 0x2029
           \<or> r = 0x202F \<or> r = 0x205F \<or> r = 0x3000)"

text \<open>The table \<^verbatim>\<open>asciiSpace\<close> of the package \<^verbatim>\<open>strings\<close>.\<close>

definition asciiSpace :: "char \<Rightarrow> bool" where
  "asciiSpace c = ((of_char c :: nat) \<in> set [0x09, 0x0A, 0x0B, 0x0C, 0x0D, 0x20])"

text \<open>
  The ASCII path of \<^verbatim>\<open>strings.Fields\<close>: one pass over the bytes; \<open>cur\<close> is the field
  being read. A white space byte closes the current field if there is one.
\<close>

fun Fields_from :: "string \<Rightarrow> string \<Rightarrow> string list" where
  "Fields_from cur [] = (if cur = [] then [] else [cur])"
| "Fields_from cur (c # cs) =
     (if asciiSpace c then (if cur = [] then Fields_from [] cs else cur # Fields_from [] cs)
      else Fields_from (cur @ [c]) cs)"

text \<open>
  \<^verbatim>\<open>strings.FieldsFunc\<close>: the same pass over the runes; a field is made of the bytes of
  its runes.
\<close>

fun FieldsFunc_from :: "(rune \<Rightarrow> bool) \<Rightarrow> string \<Rightarrow> (rune \<times> string) list \<Rightarrow> string list" where
  "FieldsFunc_from f cur [] = (if cur = [] then [] else [cur])"
| "FieldsFunc_from f cur (x # xs) =
     (if f (fst x) then (if cur = [] then FieldsFunc_from f [] xs else cur # FieldsFunc_from f [] xs)
      else FieldsFunc_from f (cur @ snd x) xs)"

definition FieldsFunc :: "(rune \<Rightarrow> bool) \<Rightarrow> string \<Rightarrow> string list" where
  "FieldsFunc f s = FieldsFunc_from f [] (runes s)"

text \<open>
  \<^verbatim>\<open>strings.Fields\<close>: a string with a byte from \<^verbatim>\<open>0x80\<close> on is split by
  \<^verbatim>\<open>FieldsFunc(s, unicode.IsSpace)\<close>.
\<close>

definition Fields :: "string \<Rightarrow> string list" where
  "Fields s = (if is_ascii s then Fields_from [] s else FieldsFunc IsSpace s)"

section \<open>Collections and ACLs (acl.go)\<close>

text \<open>The interface \<^verbatim>\<open>User\<close> of acl.go: what a permission check reads of an identity.\<close>

record User =
  Name :: string
  Groups :: "string list"
  Flags :: "string list"

record collection =
  all :: bool
  users :: "string list"
  groups :: "string list"
  flags :: "string list"

record ACL =
  allowed :: collection
  blocked :: collection

definition empty_collection :: collection where
  "empty_collection = \<lparr>all = False, users = [], groups = [], flags = []\<rparr>"

text \<open>\<^verbatim>\<open>var a ACL\<close>: the zero value.\<close>

definition zero_ACL :: ACL where
  "zero_ACL = \<lparr>allowed = empty_collection, blocked = empty_collection\<rparr>"

text \<open>
  The pointer \<^verbatim>\<open>c\<close> of \<^verbatim>\<open>NewFromString\<close> points either to \<^verbatim>\<open>a.allowed\<close> or to
  \<^verbatim>\<open>a.blocked\<close>; a write through it updates that collection of the ACL.
\<close>

datatype target = ToAllowed | ToBlocked

fun through :: "target \<Rightarrow> (collection \<Rightarrow> collection) \<Rightarrow> ACL \<Rightarrow> ACL" where
  "through ToAllowed g a = a\<lparr>allowed := g (allowed a)\<rparr>"
| "through ToBlocked g a = a\<lparr>blocked := g (blocked a)\<rparr>"

definition set_all :: "collection \<Rightarrow> collection" where
  "set_all k = k\<lparr>all := True\<rparr>"

definition append_user :: "string \<Rightarrow> collection \<Rightarrow> collection" where
  "append_user f k = k\<lparr>users := users k @ [f]\<rparr>"

definition append_group :: "string \<Rightarrow> collection \<Rightarrow> collection" where
  "append_group f k = k\<lparr>groups := groups k @ [f]\<rparr>"

text \<open>The \<^verbatim>\<open>switch f[0]\<close> of the loop body; \<^verbatim>\<open>f[0]\<close> on an empty string would panic.\<close>

definition parse_switch :: "target \<Rightarrow> string \<Rightarrow> ACL \<Rightarrow> error + ACL" where
  "parse_switch c f a =
     (case f of
        [] \<Rightarrow> Inl Panic
      | x # f' \<Rightarrow>
          if x = CHR ''-'' then
            (if length f \<le> 1 then Inl (ErrorNew (''expected string after '' @ quoted ''-''))
             else if f' = ''*'' then Inr (through c set_all a)
             else Inr (through c (append_user f') a))
          else if x = CHR ''='' then
            (if length f \<le> 1 then Inl (ErrorNew (''expected string after '' @ quoted ''=''))
             else if f' = ''*'' then Inr (through c set_all a)
             else Inr (through c (append_group f') a))
          else
            (if f = ''*'' then Inr (through c set_all a)
             else Inr (through c (append_group f) a)))"

text \<open>One iteration of \<^verbatim>\<open>for _, f := range fields\<close>.\<close>

definition parse_field :: "ACL \<Rightarrow> string \<Rightarrow> error + ACL" where
  "parse_field a f =
     (if length f = 0 then Inr a
      else if hd f = CHR ''!'' then
        (if length f \<le> 1 then Inl (ErrorNew (''expected string after '' @ quoted ''!''))
         else parse_switch ToBlocked (tl f) a)
      else parse_switch ToAllowed f a)"

fun parse_fields :: "ACL \<Rightarrow> string list \<Rightarrow> error + ACL" where
  "parse_fields a [] = Inr a"
| "parse_fields a (f # fs) =
     (case parse_field a f of Inl e \<Rightarrow> Inl e | Inr a' \<Rightarrow> parse_fields a' fs)"

definition NewFromString :: "(rune \<Rightarrow> rune) \<Rightarrow> string \<Rightarrow> error + ACL" where
  "NewFromString T s =
     (if length s = 0 then Inl (ErrorNew ''no input string given'')
      else parse_fields zero_ACL (Fields (ToLower T s)))"

text \<open>
  \<^verbatim>\<open>collection.has\<close>: the element is lower-cased, the slice is scanned from the left.
  Here and below \<open>T\<close> is the case table that \<^verbatim>\<open>strings.ToLower\<close> reads.
\<close>

primrec scan :: "string list \<Rightarrow> string \<Rightarrow> bool" where
  "scan [] e = False"
| "scan (x # xs) e = (if x = e then True else scan xs e)"

definition has :: "(rune \<Rightarrow> rune) \<Rightarrow> string list \<Rightarrow> string \<Rightarrow> bool" where
  "has T s e = scan s (ToLower T e)"

definition hasUser :: "(rune \<Rightarrow> rune) \<Rightarrow> collection \<Rightarrow> string \<Rightarrow> bool" where
  "hasUser T c u = has T (users c) u"

definition hasGroup :: "(rune \<Rightarrow> rune) \<Rightarrow> collection \<Rightarrow> string \<Rightarrow> bool" where
  "hasGroup T c g = has T (groups c) g"

definition hasFlag :: "(rune \<Rightarrow> rune) \<Rightarrow> collection \<Rightarrow> string \<Rightarrow> bool" where
  "hasFlag T c f = has T (flags c) f"

text \<open>
  The loops \<^verbatim>\<open>for idx := range xs { if p(xs[idx]) { return ... } }\<close> of \<^verbatim>\<open>Allowed\<close>:
  does the loop leave through its \<^verbatim>\<open>return\<close>?
\<close>

primrec range_hits :: "(string \<Rightarrow> bool) \<Rightarrow> string list \<Rightarrow> bool" where
  "range_hits p [] = False"
| "range_hits p (x # xs) = (if p x then True else range_hits p xs)"

definition Allowed :: "(rune \<Rightarrow> rune) \<Rightarrow> ACL \<Rightarrow> User \<Rightarrow> bool" where
  "Allowed T a u =
     (if hasUser T (blocked a) (Name u) then False
      else if range_hits (hasGroup T (blocked a)) (Groups u) then False
      else if range_hits (hasFlag T (blocked a)) (Flags u) then False
      else if hasUser T (allowed a) (Name u) then True
      else if range_hits (hasGroup T (allowed a)) (Groups u) then True
      else if range_hits (hasFlag T (allowed a)) (Flags u) then True
      else if all (blocked a) then False
      else if all (allowed a) then True
      else False)"

section \<open>Rules and permissions\<close>

type_synonym PermissionScope = string

definition PermissionScopeDownload :: PermissionScope where
  "PermissionScopeDownload = ''download''"

definition PermissionScopeUpload :: PermissionScope where
  "PermissionScopeUpload = ''upload''"

definition PermissionScopeRename :: PermissionScope where
  "PermissionScopeRename = ''rename''"

definition PermissionScopeRenameOwn :: PermissionScope where
  "PermissionScopeRenameOwn = ''renameown''"

definition PermissionScopeDelete :: PermissionScope where
  "PermissionScopeDelete = ''delete''"

definition PermissionScopeDeleteOwn :: PermissionScope where
  "PermissionScopeDeleteOwn = ''deleteown''"

definition PermissionScopeResume :: PermissionScope where
  "PermissionScopeResume = ''resume''"

definition PermissionScopeResumeOwn :: PermissionScope where
  "PermissionScopeResumeOwn = ''resumeown''"

definition PermissionScopeMakeDir :: PermissionScope where
  "PermissionScopeMakeDir = ''makedir''"

definition PermissionScopeList :: PermissionScope where
  "PermissionScopeList = ''list''"

definition PermissionScopeHideUser :: PermissionScope where
  "PermissionScopeHideUser = ''hideuser''"

definition PermissionScopeHideGroup :: PermissionScope where
  "PermissionScopeHideGroup = ''hidegroup''"

definition StringToPermissionScope :: "string \<rightharpoonup> PermissionScope" where
  "StringToPermissionScope = map_of
     [(PermissionScopeDownload, PermissionScopeDownload),
      (PermissionScopeUpload, PermissionScopeUpload),
      (PermissionScopeRename, PermissionScopeRename),
      (PermissionScopeRenameOwn, PermissionScopeRenameOwn),
      (PermissionScopeDelete, PermissionScopeDelete),
      (PermissionScopeDeleteOwn, PermissionScopeDeleteOwn),
      (PermissionScopeResume, PermissionScopeResume),
      (PermissionScopeResumeOwn, PermissionScopeResumeOwn),
      (PermissionScopeMakeDir, PermissionScopeMakeDir),
      (PermissionScopeList, PermissionScopeList),
      (PermissionScopeHideUser, PermissionScopeHideUser),
      (PermissionScopeHideGroup, PermissionScopeHideGroup)]"

text \<open>
  Modelled from the spec: the struct \<^verbatim>\<open>Rule\<close> (section 3). The file that declares
  \<^verbatim>\<open>Rule\<close>, \<^verbatim>\<open>NewRule\<close>, \<^verbatim>\<open>Permissions\<close>, \<^verbatim>\<open>NewPermissions\<close> and \<^verbatim>\<open>Permissions.Allowed\<close>
  is missing from the sources, which have its tests only (permissions_test.go). The
  order of the fields is the one of the literals in \<^verbatim>\<open>TestNewRule\<close>.
\<close>

record Rule =
  path :: string
  scope :: PermissionScope
  acl :: ACL

text \<open>\<^verbatim>\<open>strings.Join\<close>.\<close>

fun Join :: "string list \<Rightarrow> string \<Rightarrow> string" where
  "Join [] sep = []"
| "Join [x] sep = x"
| "Join (x # y # ys) sep = x @ sep @ Join (y # ys) sep"

text \<open>
  Modelled from the spec: \<^verbatim>\<open>NewRule\<close> (section 4.2), which is missing from the sources.
  At least three white space separated fields; the first is looked up in the scope
  table, the second is the path, taken verbatim; the others are rejoined and given to
  \<^verbatim>\<open>NewFromString\<close>, whose error is passed on.
\<close>

definition NewRule :: "(rune \<Rightarrow> rune) \<Rightarrow> string \<Rightarrow> error + Rule" where
  "NewRule T line =
     (let fields = Fields line in
      if length fields < 3 then Inl (ErrorNew ''rule requires minimum of 3 fields'')
      else (case StringToPermissionScope (fields ! 0) of
              None \<Rightarrow> Inl (ErrorNew (''unknown permission scope '' @ quoted (fields ! 0)))
            | Some sc \<Rightarrow>
                (case NewFromString T (Join (drop 2 fields) '' '') of
                   Inl e \<Rightarrow> Inl e
                 | Inr a \<Rightarrow> Inr \<lparr>path = fields ! 1, scope = sc, acl = a\<rparr>)))"

text \<open>
  Modelled from the spec: the data of \<^verbatim>\<open>Permissions\<close> (section 3), a mapping from a scope
  to the (path, ACL) entries of that scope, in the order of insertion.
\<close>

type_synonym Permissions = "PermissionScope \<rightharpoonup> (string \<times> ACL) list"

text \<open>Modelled from the spec: the entries of a scope; none when the scope has no rule.\<close>

definition entries :: "Permissions \<Rightarrow> PermissionScope \<Rightarrow> (string \<times> ACL) list" where
  "entries p sc = (case p sc of None \<Rightarrow> [] | Some es \<Rightarrow> es)"

text \<open>
  Modelled from the spec: the message of the error of \<^verbatim>\<open>NewPermissions\<close> (section 4.3),
  \<^verbatim>\<open>path '<path>' for scope '<scope>' already exists\<close>.
\<close>

definition exists_message :: "Rule \<Rightarrow> string" where
  "exists_message r =
     ''path '' @ quoted (path r) @ '' for scope '' @ quoted (scope r) @ '' already exists''"

text \<open>
  Modelled from the spec: \<^verbatim>\<open>NewPermissions\<close> (section 4.3, construction), missing from the
  sources. The rules are inserted in order, grouped by scope; a rule whose path is
  already there for its scope is rejected.
\<close>

fun insert_rules :: "Permissions \<Rightarrow> Rule list \<Rightarrow> error + Permissions" where
  "insert_rules p [] = Inr p"
| "insert_rules p (r # rs) =
     (if path r \<in> set (map fst (entries p (scope r))) then Inl (ErrorNew (exists_message r))
      else insert_rules (p(scope r \<mapsto> entries p (scope r) @ [(path r, acl r)])) rs)"

definition NewPermissions :: "Rule list \<Rightarrow> error + Permissions" where
  "NewPermissions rules = insert_rules Map.empty rules"

text \<open>
  Modelled from the spec: the comparison of paths by segments (section 4.3, step 2). A
  path is cut at every \<^verbatim>\<open>/\<close>; empty segments are dropped, so that \<^verbatim>\<open>/\<close> has no segment
  and is an ancestor of every path.
\<close>

fun segments_from :: "string \<Rightarrow> string \<Rightarrow> string list" where
  "segments_from cur [] = (if cur = [] then [] else [cur])"
| "segments_from cur (c # cs) =
     (if c = CHR ''/'' then (if cur = [] then segments_from [] cs else cur # segments_from [] cs)
      else segments_from (cur @ [c]) cs)"

definition segments :: "string \<Rightarrow> string list" where
  "segments p = segments_from [] p"

text \<open>
  Modelled from the spec: a path is an ancestor of or equal to another one when its
  segments are the first segments of the other one, in the same order.
\<close>

fun starts_with :: "string list \<Rightarrow> string list \<Rightarrow> bool" where
  "starts_with ys [] = True"
| "starts_with [] (x # xs) = False"
| "starts_with (y # ys) (x # xs) = (x = y \<and> starts_with ys xs)"

definition ancestor_or_equal :: "string \<Rightarrow> string \<Rightarrow> bool" where
  "ancestor_or_equal rp q = starts_with (segments q) (segments rp)"

text \<open>
  Modelled from the spec: the choice of the rule (section 4.3, step 2): among the entries
  whose path is an ancestor of or equal to the queried path, the one with the longest
  path; \<open>best\<close> is the choice so far, and of two such paths of the same length the
  earlier entry stays.
\<close>

fun select_rule :: "string \<Rightarrow> (string \<times> ACL) list \<Rightarrow> (string \<times> ACL) option \<Rightarrow> (string \<times> ACL) option" where
  "select_rule q [] best = best"
| "select_rule q (e # es) best =
     (if ancestor_or_equal (fst e) q \<and>
         (case best of None \<Rightarrow> True | Some b \<Rightarrow> length (fst b) < length (fst e))
      then select_rule q es (Some e) else select_rule q es best)"

text \<open>Modelled from the spec: \<^verbatim>\<open>Permissions.Allowed\<close> (section 4.3, lookup), missing from the sources.\<close>

definition Permissions_Allowed :: "(rune \<Rightarrow> rune) \<Rightarrow> Permissions \<Rightarrow> PermissionScope \<Rightarrow> string \<Rightarrow> User \<Rightarrow> bool" where
  "Permissions_Allowed T p sc q u =
     (case p sc of
        None \<Rightarrow> False
      | Some es \<Rightarrow>
          (case select_rule q es None of
             None \<Rightarrow> False
           | Some e \<Rightarrow> Allowed T (snd e) u))"

section \<open>The authenticator\<close>

type_synonym bytes = string

text \<open>
  The struct \<^verbatim>\<open>User\<close> that the authenticator stores (its declaration is not among the
  sources; the authenticator reads and writes the fields \<^verbatim>\<open>Name\<close> and \<^verbatim>\<open>Password\<close>).
  The names carry a suffix, since \<^verbatim>\<open>User\<close> and \<^verbatim>\<open>Name\<close> are taken by the interface of
  acl.go above.
\<close>

record User_Entry =
  Name_Entry :: string
  Password :: bytes

text \<open>
  Modelled from the spec: \<^verbatim>\<open>User.Key()\<close>, missing from the sources: the key of the store
  is derived from the kind and the name (section 4.4).
\<close>

definition Key :: "User_Entry \<Rightarrow> bytes" where
  "Key u = ''user:'' @ Name_Entry u"

text \<open>
  The authenticator calls three libraries: the key-value store badger, the codec msgpack
  and bcrypt. They are parameters of the model. A state of the store has the type \<open>'db\<close>.
  \<^item> \<open>txn_Get db key\<close>: \<^verbatim>\<open>tx.Get(key)\<close> and the read of the item's value in a \<^verbatim>\<open>db.View\<close>;
  \<^item> \<open>txn_Set db key val\<close>: \<^verbatim>\<open>tx.Set(key, val)\<close> in a \<^verbatim>\<open>db.Update\<close>, and the commit; the
    new state of the store, or the error (and then the store is as before);
  \<^item> \<open>Encode\<close>, \<open>Decode\<close>: msgpack; \<open>Decode val e\<close> decodes into the struct \<open>e\<close>;
  \<^item> \<open>GenerateFromPassword\<close>, \<open>CompareHashAndPassword\<close>: bcrypt; the latter returns
    \<^verbatim>\<open>nil\<close> (here \<open>None\<close>) when the password verifies.
\<close>

record 'db library =
  txn_Get :: "'db \<Rightarrow> bytes \<Rightarrow> error + bytes"
  txn_Set :: "'db \<Rightarrow> bytes \<Rightarrow> bytes \<Rightarrow> error + 'db"
  Encode :: "User_Entry \<Rightarrow> error + bytes"
  Decode :: "bytes \<Rightarrow> User_Entry \<Rightarrow> error + User_Entry"
  GenerateFromPassword :: "bytes \<Rightarrow> nat \<Rightarrow> error + bytes"
  CompareHashAndPassword :: "bytes \<Rightarrow> bytes \<Rightarrow> error option"

definition DefaultCost :: nat where
  "DefaultCost = 10"

definition encodeAndUpdate :: "'db library \<Rightarrow> 'db \<Rightarrow> User_Entry \<Rightarrow> error + 'db" where
  "encodeAndUpdate L db e =
     (case Encode L e of
        Inl err \<Rightarrow> Inl err
      | Inr b \<Rightarrow> txn_Set L db (Key e) b)"

definition getAndDecode :: "'db library \<Rightarrow> 'db \<Rightarrow> bytes \<Rightarrow> User_Entry \<Rightarrow> error + User_Entry" where
  "getAndDecode L db key e =
     (case txn_Get L db key of
        Inl err \<Rightarrow> Inl err
      | Inr val \<Rightarrow> Decode L val e)"

definition GetUser :: "'db library \<Rightarrow> 'db \<Rightarrow> string \<Rightarrow> error + User_Entry" where
  "GetUser L db name =
     (let u = \<lparr>Name_Entry = name, Password = []\<rparr> in
      case getAndDecode L db (Key u) u of
        Inl err \<Rightarrow> if err = ErrKeyNotFound then Inl ErrUserDoesntExist else Inl err
      | Inr u' \<Rightarrow> Inr u')"

text \<open>\<^verbatim>\<open>AddUser\<close> returns its result and the state of the store after the call.\<close>

definition AddUser :: "'db library \<Rightarrow> 'db \<Rightarrow> string \<Rightarrow> string \<Rightarrow> (error + User_Entry) \<times> 'db" where
  "AddUser L db name pass =
     (case GetUser L db name of
        Inr u \<Rightarrow> (Inl ErrUserExists, db)
      | Inl err \<Rightarrow>
          (if err \<noteq> ErrUserDoesntExist then (Inl err, db)
           else (case GenerateFromPassword L pass DefaultCost of
                   Inl err \<Rightarrow> (Inl err, db)
                 | Inr hashed \<Rightarrow>
                     (let u = \<lparr>Name_Entry = name, Password = hashed\<rparr> in
                      case encodeAndUpdate L db u of
                        Inl err \<Rightarrow> (Inl err, db)
                      | Inr db' \<Rightarrow> (Inr u, db')))))"

definition CheckPassword :: "'db library \<Rightarrow> 'db \<Rightarrow> string \<Rightarrow> string \<Rightarrow> bool" where
  "CheckPassword L db name pass =
     (case GetUser L db name of
        Inl err \<Rightarrow> False
      | Inr u \<Rightarrow>
          (case CompareHashAndPassword L (Password u) pass of
             Some err \<Rightarrow> False
           | None \<Rightarrow> True))"

text \<open>\<^verbatim>\<open>ChangePassword\<close> returns its error and the state of the store after the call.\<close>

definition ChangePassword :: "'db library \<Rightarrow> 'db \<Rightarrow> string \<Rightarrow> string \<Rightarrow> error option \<times> 'db" where
  "ChangePassword L db user pass = (Some (ErrorNew ''stub''), db)"

text \<open>
  What the authenticator expects of the libraries: a committed \<^verbatim>\<open>Set\<close> is read back by
  \<^verbatim>\<open>Get\<close>, decoding inverts encoding, and a password verifies against the hash
  generated from it.
\<close>

definition lawful :: "'db library \<Rightarrow> bool" where
  "lawful L \<longleftrightarrow>
     (\<forall>db k v db'. txn_Set L db k v = Inr db' \<longrightarrow> txn_Get L db' k = Inr v) \<and>
     (\<forall>u b e. Encode L u = Inr b \<longrightarrow> Decode L b e = Inr u) \<and>
     (\<forall>p c h. GenerateFromPassword L p c = Inr h \<longrightarrow> CompareHashAndPassword L h p = None)"

text \<open>
  A small instance of the libraries, to run the authenticator on: the store is a map,
  the codec writes the length of the name in unary, a colon, the name and the password;
  the hash is a marker and the reversed password.
\<close>

definition toy_Decode :: "bytes \<Rightarrow> User_Entry" where
  "toy_Decode b =
     (let n = length (takeWhile (\<lambda>c. c = CHR ''#'') b); rest = drop (Suc n) b
      in \<lparr>Name_Entry = take n rest, Password = drop n rest\<rparr>)"

definition toy :: "(bytes \<rightharpoonup> bytes) library" where
  "toy =
     \<lparr>txn_Get = (\<lambda>db k. case db k of None \<Rightarrow> Inl ErrKeyNotFound | Some v \<Rightarrow> Inr v),
      txn_Set = (\<lambda>db k v. Inr (db(k \<mapsto> v))),
      Encode = (\<lambda>u. Inr (replicate (length (Name_Entry u)) (CHR ''#'') @ CHR '':'' # Name_Entry u @ Password u)),
      Decode = (\<lambda>b e. Inr (toy_Decode b)),
      GenerateFromPassword = (\<lambda>p c. Inr (''$toy$'' @ rev p)),
      CompareHashAndPassword = (\<lambda>h p. if h = ''$toy$'' @ rev p then None
         else Some (ErrorNew ''hashedPassword is not the hash of the given password''))\<rparr>"

section \<open>Instances for running the definitions\<close>

text \<open>
  The case table on the Latin-1 block only: \<^verbatim>\<open>U+00C0..U+00DE\<close> become
  \<^verbatim>\<open>U+00E0..U+00FE\<close>, but for the multiplication sign \<^verbatim>\<open>U+00D7\<close>; every other rune is
  left alone.
\<close>

definition latin1 :: "rune \<Rightarrow> rune" where
  "latin1 r = (if 0xC0 \<le> r \<and> r \<le> 0xDE \<and> r \<noteq> 0xD7 then r + 0x20 else r)"

text \<open>
  The instance \<open>toy\<close> with a hash that, as bcrypt does, reads the first 72 bytes of the
  password only.
\<close>

definition trunc72 :: "(bytes \<rightharpoonup> bytes) library" where
  "trunc72 =
     toy\<lparr>GenerateFromPassword := (\<lambda>p c. Inr (''$toy$'' @ rev (take 72 p))),
         CompareHashAndPassword := (\<lambda>h p. if h = ''$toy$'' @ rev (take 72 p) then None
            else Some (ErrorNew ''hashedPassword is not the hash of the given password''))\<rparr>"

section \<open>Membership tests and the decision of an ACL\<close>

lemma scan_iff: "scan xs e \<longleftrightarrow> e \<in> set xs"
  by (induction xs) auto

lemma has_iff: "has T xs e \<longleftrightarrow> ToLower T e \<in> set xs"
  by (simp add: has_def scan_iff)

lemma range_hits_iff: "range_hits p xs \<longleftrightarrow> (\<exists>x\<in>set xs. p x)"
  by (induction xs) auto

subsection \<open>The string library\<close>

lemma char_of_bits:
  "char_of (n::nat) = Char (odd n) (odd (n div 2)) (odd (n div 4)) (odd (n div 8))
     (odd (n div 16)) (odd (n div 32)) (odd (n div 64)) (odd (n div 128))"
  by (simp add: char_of_def bit_iff_odd)

lemmas string_eval =
  ToLower_def is_ascii_def lower_byte_def Map_def unicode_ToLower_def DecodeRune_def
  EncodeRune_def RuneError_def Fields_def FieldsFunc_def IsSpace_def asciiSpace_def
  latin1_def char_of_bits

lemma DecodeRune_width: "0 < snd (DecodeRune (c # cs))"
  by (simp add: DecodeRune_def Let_def)

lemma runes_concat: "concat (map snd (runes s)) = s"
proof (induction s rule: runes.induct)
  case 1
  show ?case by simp
next
  case (2 c cs)
  let ?w = "snd (DecodeRune (c # cs))"
  have "0 < ?w" by (rule DecodeRune_width)
  then have "drop (?w - 1) cs = drop ?w (c # cs)" by (cases ?w) simp_all
  with 2 show ?case by simp
qed

lemma runes_ascii: "is_ascii s \<Longrightarrow> runes s = map (\<lambda>c. (of_char c, [c])) s"
  by (induction s) (simp_all add: is_ascii_def DecodeRune_def)


lemma ToLower_ascii: "is_ascii s \<Longrightarrow> ToLower T s = map lower_byte s"
  by (simp add: ToLower_def)

lemma Fields_ascii: "is_ascii s \<Longrightarrow> Fields s = Fields_from [] s"
  by (simp add: Fields_def)


text \<open>White space: \<^verbatim>\<open>strings.ToLower\<close> leaves it alone and \<^verbatim>\<open>strings.Fields\<close> drops it.\<close>

lemma IsSpace_cases:
  "IsSpace r \<Longrightarrow>
     r = 0x09 \<or> r = 0x0A \<or> r = 0x0B \<or> r = 0x0C \<or> r = 0x0D \<or> r = 0x20 \<or> r = 0x85 \<or> r = 0xA0
     \<or> (0x1680 \<le> r \<and> r \<le> 0x3000)"
  by (simp add: IsSpace_def split: if_splits) arith

lemma IsSpace_ToLower:
  assumes "IsSpace r" "\<forall>r. IsSpace r \<longrightarrow> T r = r"
  shows "unicode_ToLower T r = r \<and> r \<noteq> RuneError"
proof -
  from assms have T: "T r = r" by blast
  from IsSpace_cases [OF assms(1)]
  have "\<not> (0x41 \<le> r \<and> r \<le> 0x5A)" "r \<noteq> 0xFFFD" by arith+
  with T show ?thesis by (simp add: unicode_ToLower_def RuneError_def)
qed

lemma Map_scan_unchanged:
  "\<forall>x\<in>set xs. m (fst x) = fst x \<and> fst x \<noteq> RuneError \<Longrightarrow> Map_scan m xs = concat (map snd xs)"
  by (induction xs) simp_all

lemma lower_byte_space:
  assumes "(of_char c :: nat) < 0x80" "IsSpace (of_char c)"
  shows "lower_byte c = c \<and> asciiSpace c"
proof -
  from IsSpace_cases [OF assms(2)] assms(1)
  have "(of_char c :: nat) = 0x09 \<or> (of_char c :: nat) = 0x0A \<or> (of_char c :: nat) = 0x0B
      \<or> (of_char c :: nat) = 0x0C \<or> (of_char c :: nat) = 0x0D \<or> (of_char c :: nat) = 0x20"
    by arith
  then show ?thesis by (auto simp: lower_byte_def asciiSpace_def)
qed

lemma Fields_from_spaces: "\<forall>c\<in>set s. asciiSpace c \<Longrightarrow> Fields_from [] s = []"
  by (induction s) auto

lemma FieldsFunc_from_spaces: "\<forall>x\<in>set xs. f (fst x) \<Longrightarrow> FieldsFunc_from f [] xs = []"
  by (induction xs) auto

lemma whitespace_ToLower:
  assumes "\<forall>r\<in>set (map fst (runes s)). IsSpace r" "\<forall>r. IsSpace r \<longrightarrow> T r = r"
  shows "ToLower T s = s"
proof (cases "is_ascii s")
  case True
  with assms(1) have "\<forall>c\<in>set s. IsSpace (of_char c)" by (simp add: runes_ascii)
  moreover from True have "\<forall>c\<in>set s. (of_char c :: nat) < 0x80"
    by (simp add: is_ascii_def list_all_iff)
  ultimately have "\<forall>c\<in>set s. lower_byte c = c" by (simp add: lower_byte_space)
  with True show ?thesis by (simp add: ToLower_ascii map_idI)
next
  case False
  from assms have "\<forall>x\<in>set (runes s). unicode_ToLower T (fst x) = fst x \<and> fst x \<noteq> RuneError"
    by (simp add: IsSpace_ToLower)
  then have "Map_scan (unicode_ToLower T) (runes s) = concat (map snd (runes s))"
    by (rule Map_scan_unchanged)
  with False show ?thesis by (simp add: ToLower_def Map_def runes_concat)
qed

lemma whitespace_Fields:
  assumes "\<forall>r\<in>set (map fst (runes s)). IsSpace r"
  shows "Fields s = []"
proof (cases "is_ascii s")
  case True
  with assms have "\<forall>c\<in>set s. IsSpace (of_char c)" by (simp add: runes_ascii)
  moreover from True have "\<forall>c\<in>set s. (of_char c :: nat) < 0x80"
    by (simp add: is_ascii_def list_all_iff)
  ultimately have "\<forall>c\<in>set s. asciiSpace c" by (simp add: lower_byte_space)
  with True show ?thesis by (simp add: Fields_ascii Fields_from_spaces)
next
  case False
  from assms have "FieldsFunc_from IsSpace [] (runes s) = []"
    by (intro FieldsFunc_from_spaces) simp
  with False show ?thesis by (simp add: Fields_def FieldsFunc_def)
qed

lemma latin1_space: "\<forall>r. IsSpace r \<longrightarrow> latin1 r = r"
proof (intro allI impI)
  fix r assume "IsSpace r"
  from IsSpace_cases [OF this] have "\<not> (0xC0 \<le> r \<and> r \<le> 0xDE \<and> r \<noteq> 0xD7)" by arith
  then show "latin1 r = r" by (simp add: latin1_def)
qed

text \<open>
  Some values of the library functions: an upper-case letter of two bytes, a byte that
  is no UTF-8, a no-break space between two words, an ASCII string.
\<close>

lemma library_examples:
  "ToLower latin1 [CHR 0xC3, CHR 0x89] = [CHR 0xC3, CHR 0xA9]"
  "ToLower latin1 [CHR 0xFF] = [CHR 0xEF, CHR 0xBF, CHR 0xBD]"
  "ToLower latin1 [CHR 0xFE] = [CHR 0xEF, CHR 0xBF, CHR 0xBD]"
  "Fields [CHR ''a'', CHR 0xC2, CHR 0xA0, CHR ''b''] = [''a'', ''b'']"
  "Fields [CHR 0xC2, CHR 0xA0] = []"
  "ToLower T ''-User !*'' = ''-user !*''"
  "Fields '' -user  !* '' = [''-user'', ''!*'']"
  by (simp_all add: string_eval)

text \<open>
  A lower-case letter can be longer than the upper-case one (\<^verbatim>\<open>U+023A\<close> and
  \<^verbatim>\<open>U+2C65\<close>); a truncated encoding is rewritten byte by byte.
\<close>

lemma longer_lower_case:
  "T 0x23A = 0x2C65 \<Longrightarrow> ToLower T [CHR 0xC8, CHR 0xBA] = [CHR 0xE2, CHR 0xB1, CHR 0xA5]"
  by (simp add: string_eval)

lemma mixed_example:
  "ToLower latin1 (''A'' @ [CHR 0xC3, CHR 0x89] @ ''Z'' @ [CHR 0xE2, CHR 0x82]) =
     ''a'' @ [CHR 0xC3, CHR 0xA9] @ ''z'' @ [CHR 0xEF, CHR 0xBF, CHR 0xBD, CHR 0xEF, CHR 0xBF, CHR 0xBD]"
  by (simp add: string_eval)

lemma lower_examples:
  "ToLower T ''Bob'' = ''bob''"
  "ToLower T ''BOB'' = ''bob''"
  "ToLower T ''bob'' = ''bob''"
  "ToLower T ''users'' = ''users''"
  "ToLower T ''BANNED'' = ''banned''"
  "ToLower T ''Staff'' = ''staff''"
  "ToLower T ''staff'' = ''staff''"
  "ToLower T ''1'' = ''1''"
  "ToLower T ''X'' = ''x''"
  "ToLower T ''x'' = ''x''"
  by (simp_all add: string_eval)

subsection \<open>The decision\<close>

text \<open>
  Claim C1. \<^verbatim>\<open>ACL.Allowed\<close> is decided in a fixed order: a blocked user, a blocked
  group, a blocked flag (each denies); an allowed user, an allowed group, an allowed flag
  (each allows); then \<^verbatim>\<open>blocked.all\<close> (deny), then \<^verbatim>\<open>allowed.all\<close> (allow), and deny
  when nothing matched. A name, group or flag of the identity matches when its lower-case
  form is an element of the slice. The wildcard flags are read only after the six
  predicates, so a blocked predicate denies whatever \<^verbatim>\<open>allowed.all\<close> is, and an allowed
  predicate allows whatever \<^verbatim>\<open>blocked.all\<close> is.
\<close>

theorem Allowed_precedence:
  "Allowed T a u =
     (if ToLower T (Name u) \<in> set (users (blocked a)) then False
      else if \<exists>g\<in>set (Groups u). ToLower T g \<in> set (groups (blocked a)) then False
      else if \<exists>f\<in>set (Flags u). ToLower T f \<in> set (flags (blocked a)) then False
      else if ToLower T (Name u) \<in> set (users (allowed a)) then True
      else if \<exists>g\<in>set (Groups u). ToLower T g \<in> set (groups (allowed a)) then True
      else if \<exists>f\<in>set (Flags u). ToLower T f \<in> set (flags (allowed a)) then True
      else if all (blocked a) then False
      else if all (allowed a) then True
      else False)"
  by (simp add: Allowed_def hasUser_def hasGroup_def hasFlag_def has_iff range_hits_iff)

text \<open>
  Three runs: a blocked group denies although the name is allowed and \<^verbatim>\<open>allowed.all\<close> is
  set; an allowed flag allows although \<^verbatim>\<open>blocked.all\<close> is set; no match and no wildcard
  denies.
\<close>

theorem Allowed_precedence_witness:
  "\<not> Allowed latin1 \<lparr>allowed = \<lparr>all = True, users = [''bob''], groups = [], flags = []\<rparr>,
               blocked = \<lparr>all = False, users = [], groups = [''banned''], flags = []\<rparr>\<rparr>
             \<lparr>Name = ''Bob'', Groups = [''users'', ''BANNED''], Flags = [''1'']\<rparr>
   \<and> Allowed latin1 \<lparr>allowed = \<lparr>all = False, users = [], groups = [], flags = [''1'']\<rparr>,
               blocked = \<lparr>all = True, users = [], groups = [], flags = []\<rparr>\<rparr>
             \<lparr>Name = ''Bob'', Groups = [''users'', ''BANNED''], Flags = [''1'']\<rparr>
   \<and> \<not> Allowed latin1 \<lparr>allowed = \<lparr>all = False, users = [''ann''], groups = [], flags = []\<rparr>,
               blocked = \<lparr>all = False, users = [], groups = [''banned''], flags = []\<rparr>\<rparr>
             \<lparr>Name = ''Bob'', Groups = [''users''], Flags = [''1'']\<rparr>"
  using
    Allowed_precedence [of latin1
      "\<lparr>allowed = \<lparr>all = True, users = [''bob''], groups = [], flags = []\<rparr>,
        blocked = \<lparr>all = False, users = [], groups = [''banned''], flags = []\<rparr>\<rparr>"
      "\<lparr>Name = ''Bob'', Groups = [''users'', ''BANNED''], Flags = [''1'']\<rparr>"]
    Allowed_precedence [of latin1
      "\<lparr>allowed = \<lparr>all = False, users = [], groups = [], flags = [''1'']\<rparr>,
        blocked = \<lparr>all = True, users = [], groups = [], flags = []\<rparr>\<rparr>"
      "\<lparr>Name = ''Bob'', Groups = [''users'', ''BANNED''], Flags = [''1'']\<rparr>"]
    Allowed_precedence [of latin1
      "\<lparr>allowed = \<lparr>all = False, users = [''ann''], groups = [], flags = []\<rparr>,
        blocked = \<lparr>all = False, users = [], groups = [''banned''], flags = []\<rparr>\<rparr>"
      "\<lparr>Name = ''Bob'', Groups = [''users''], Flags = [''1'']\<rparr>"]
  by (simp add: lower_examples)

section \<open>Parsing an ACL\<close>

lemma through_sel:
  "allowed (through c g a) = (if c = ToAllowed then g (allowed a) else allowed a)"
  "blocked (through c g a) = (if c = ToBlocked then g (blocked a) else blocked a)"
  by (cases c; simp)+

lemma parse_switch_cases:
  assumes "parse_switch c f a = Inr a'"
  obtains "a' = through c set_all a"
  | n where "f = CHR ''-'' # n" "n \<noteq> []" "n \<noteq> ''*''" "a' = through c (append_user n) a"
  | n where "f = CHR ''='' # n" "n \<noteq> []" "n \<noteq> ''*''" "a' = through c (append_group n) a"
  | "f \<noteq> []" "hd f \<noteq> CHR ''-''" "hd f \<noteq> CHR ''=''" "f \<noteq> ''*''" "a' = through c (append_group f) a"
  using assms by (auto simp: parse_switch_def split: list.splits if_splits)

lemma parse_switch_flags:
  assumes "parse_switch c f a = Inr a'"
  shows "flags (allowed a') = flags (allowed a) \<and> flags (blocked a') = flags (blocked a)"
  using assms
  by (rule parse_switch_cases) (simp_all add: through_sel set_all_def append_user_def append_group_def)

lemma parse_switch_groups_mono:
  assumes "parse_switch c f a = Inr a'"
  shows "set (groups (allowed a)) \<subseteq> set (groups (allowed a')) \<and>
         set (groups (blocked a)) \<subseteq> set (groups (blocked a'))"
  using assms
  by (rule parse_switch_cases) (auto simp add: through_sel set_all_def append_user_def append_group_def)

lemma parse_field_cases:
  assumes "parse_field a f = Inr a'"
  obtains "f = []" "a' = a"
  | g where "f = CHR ''!'' # g" "g \<noteq> []" "parse_switch ToBlocked g a = Inr a'"
  | "f \<noteq> []" "hd f \<noteq> CHR ''!''" "parse_switch ToAllowed f a = Inr a'"
  using assms by (cases f) (auto simp: parse_field_def split: if_splits)

lemma parse_field_flags:
  assumes "parse_field a f = Inr a'"
  shows "flags (allowed a') = flags (allowed a) \<and> flags (blocked a') = flags (blocked a)"
  using assms by (rule parse_field_cases) (simp_all add: parse_switch_flags)

lemma parse_field_groups_mono:
  assumes "parse_field a f = Inr a'"
  shows "set (groups (allowed a)) \<subseteq> set (groups (allowed a')) \<and>
         set (groups (blocked a)) \<subseteq> set (groups (blocked a'))"
  using assms by (rule parse_field_cases) (simp_all add: parse_switch_groups_mono)

lemma parse_fields_step:
  assumes "parse_fields a (f # fs) = Inr a'"
  obtains b where "parse_field a f = Inr b" "parse_fields b fs = Inr a'"
  using assms by (auto split: sum.splits)

lemma parse_fields_flags:
  "parse_fields a fs = Inr a' \<Longrightarrow>
   flags (allowed a') = flags (allowed a) \<and> flags (blocked a') = flags (blocked a)"
proof (induction fs arbitrary: a)
  case Nil
  then show ?case by simp
next
  case (Cons f fs)
  from Cons.prems obtain b where b: "parse_field a f = Inr b" "parse_fields b fs = Inr a'"
    by (rule parse_fields_step)
  from parse_field_flags [OF b(1)] Cons.IH [OF b(2)] show ?case by simp
qed

lemma parse_fields_groups_mono:
  "parse_fields a fs = Inr a' \<Longrightarrow>
   set (groups (allowed a)) \<subseteq> set (groups (allowed a')) \<and>
   set (groups (blocked a)) \<subseteq> set (groups (blocked a'))"
proof (induction fs arbitrary: a)
  case Nil
  then show ?case by simp
next
  case (Cons f fs)
  from Cons.prems obtain b where b: "parse_field a f = Inr b" "parse_fields b fs = Inr a'"
    by (rule parse_fields_step)
  from parse_field_groups_mono [OF b(1)] Cons.IH [OF b(2)] show ?case by blast
qed

lemma NewFromString_Inr:
  "NewFromString T s = Inr a \<Longrightarrow> parse_fields zero_ACL (Fields (ToLower T s)) = Inr a"
  by (simp add: NewFromString_def split: if_splits)

lemma NewFromString_flags:
  "NewFromString T s = Inr a \<Longrightarrow> flags (allowed a) = [] \<and> flags (blocked a) = []"
  by (auto simp: zero_ACL_def empty_collection_def dest!: NewFromString_Inr parse_fields_flags)

text \<open>The read of \<^verbatim>\<open>f[0]\<close> in the \<^verbatim>\<open>switch\<close> is never out of range.\<close>

lemma parse_field_no_panic: "parse_field a f \<noteq> Inl Panic"
  by (cases f) (auto simp: parse_field_def parse_switch_def split: list.splits)

lemma parse_fields_no_panic: "parse_fields a fs \<noteq> Inl Panic"
  by (induction fs arbitrary: a) (auto simp: parse_field_no_panic split: sum.splits)

lemma NewFromString_no_panic: "NewFromString T s \<noteq> Inl Panic"
  by (simp add: NewFromString_def parse_fields_no_panic)

lemma Fields_from_nonempty: "[] \<notin> set (Fields_from cur s)"
  by (induction s arbitrary: cur) auto

lemma FieldsFunc_from_nonempty: "[] \<notin> set (FieldsFunc_from f cur xs)"
  by (induction xs arbitrary: cur) auto

lemma Fields_nonempty: "f \<in> set (Fields s) \<Longrightarrow> f \<noteq> []"
  using Fields_from_nonempty [of "[]" s] FieldsFunc_from_nonempty [of IsSpace "[]" "runes s"]
  by (auto simp: Fields_def FieldsFunc_def split: if_splits)

text \<open>What one unprefixed token does.\<close>

lemma parse_field_bare:
  assumes "f \<noteq> []" "hd f \<noteq> CHR ''!''" "hd f \<noteq> CHR ''-''" "hd f \<noteq> CHR ''=''" "f \<noteq> ''*''"
  shows "parse_field a f = Inr (through ToAllowed (append_group f) a)"
  using assms by (cases f) (auto simp: parse_field_def parse_switch_def)

lemma parse_field_bang_bare:
  assumes "g \<noteq> []" "hd g \<noteq> CHR ''-''" "hd g \<noteq> CHR ''=''" "g \<noteq> ''*''"
  shows "parse_field a (CHR ''!'' # g) = Inr (through ToBlocked (append_group g) a)"
  using assms by (cases g) (auto simp: parse_field_def parse_switch_def)

lemma parse_fields_bare:
  assumes "parse_fields a fs = Inr a'" "f \<in> set fs"
    "f \<noteq> []" "hd f \<noteq> CHR ''!''" "hd f \<noteq> CHR ''-''" "hd f \<noteq> CHR ''=''" "f \<noteq> ''*''"
  shows "f \<in> set (groups (allowed a'))"
  using assms(1,2)
proof (induction fs arbitrary: a)
  case Nil
  then show ?case by simp
next
  case (Cons x fs)
  from Cons.prems(1) obtain b where b: "parse_field a x = Inr b" "parse_fields b fs = Inr a'"
    by (rule parse_fields_step)
  show ?case
  proof (cases "f = x")
    case True
    with b(1) parse_field_bare [OF assms(3-7), of a]
    have "f \<in> set (groups (allowed b))" by (auto simp: append_group_def)
    with parse_fields_groups_mono [OF b(2)] show ?thesis by blast
  next
    case False
    with Cons.prems have "f \<in> set fs" by simp
    from Cons.IH [OF b(2) this] show ?thesis .
  qed
qed

lemma parse_fields_bang_bare:
  assumes "parse_fields a fs = Inr a'" "CHR ''!'' # g \<in> set fs"
    "g \<noteq> []" "hd g \<noteq> CHR ''-''" "hd g \<noteq> CHR ''=''" "g \<noteq> ''*''"
  shows "g \<in> set (groups (blocked a'))"
  using assms(1,2)
proof (induction fs arbitrary: a)
  case Nil
  then show ?case by simp
next
  case (Cons x fs)
  from Cons.prems(1) obtain b where b: "parse_field a x = Inr b" "parse_fields b fs = Inr a'"
    by (rule parse_fields_step)
  show ?case
  proof (cases "CHR ''!'' # g = x")
    case True
    with b(1) parse_field_bang_bare [OF assms(3-6), of a]
    have "g \<in> set (groups (blocked b))" by (auto simp: append_group_def)
    with parse_fields_groups_mono [OF b(2)] show ?thesis by blast
  next
    case False
    with Cons.prems have "CHR ''!'' # g \<in> set fs" by simp
    from Cons.IH [OF b(2) this] show ?thesis .
  qed
qed

lemma Allowed_no_flags:
  assumes "flags (allowed a) = []" "flags (blocked a) = []"
  shows "Allowed T a (u\<lparr>Flags := fs\<rparr>) = Allowed T a u"
  using assms by (simp add: Allowed_def hasFlag_def has_def range_hits_iff)

lemma zero_ACL_denies: "\<not> Allowed T zero_ACL u"
  by (simp add: Allowed_def zero_ACL_def empty_collection_def hasUser_def hasGroup_def
      hasFlag_def has_def range_hits_iff)

text \<open>
  Claim C3. The claim: a token \<^verbatim>\<open>-*\<close> or \<^verbatim>\<open>!-*\<close> makes the construction fail with
  \<^verbatim>\<open>bad user '*'\<close>, a token \<^verbatim>\<open>=*\<close> or \<^verbatim>\<open>!=*\<close> with \<^verbatim>\<open>bad group '*'\<close>. The code of
  \<^verbatim>\<open>NewFromString\<close> does not: on each of the four tokens it returns an ACL, with the
  \<^verbatim>\<open>all\<close> flag of the selected collection set, as for the bare \<^verbatim>\<open>*\<close> and \<^verbatim>\<open>!*\<close>.
\<close>

theorem prefixed_wildcard_accepted:
  "NewFromString T ''!-*'' = Inr \<lparr>allowed = empty_collection, blocked = empty_collection\<lparr>all := True\<rparr>\<rparr>
   \<and> NewFromString T ''-*'' = Inr \<lparr>allowed = empty_collection\<lparr>all := True\<rparr>, blocked = empty_collection\<rparr>
   \<and> NewFromString T ''!=*'' = Inr \<lparr>allowed = empty_collection, blocked = empty_collection\<lparr>all := True\<rparr>\<rparr>
   \<and> NewFromString T ''=*'' = Inr \<lparr>allowed = empty_collection\<lparr>all := True\<rparr>, blocked = empty_collection\<rparr>"
  by code_simp

text \<open>
  The last case of \<^verbatim>\<open>TestNewRule\<close> expects the error \<^verbatim>\<open>bad user '*'\<close> for this line;
  with \<^verbatim>\<open>NewRule\<close> as the specification describes it, the line is accepted.
\<close>

lemma TestNewRule_prefixed_wildcard:
  "NewRule T ''download /path/test !-*'' =
     Inr \<lparr>path = ''/path/test'', scope = PermissionScopeDownload,
          acl = \<lparr>allowed = empty_collection, blocked = empty_collection\<lparr>all := True\<rparr>\<rparr>\<rparr>"
  by code_simp

text \<open>
  Claim C6. When \<^verbatim>\<open>NewFromString\<close> succeeds, every token of the lower-cased input that
  has no \<^verbatim>\<open>!\<close>, \<^verbatim>\<open>-\<close> or \<^verbatim>\<open>=\<close> in front and is not \<^verbatim>\<open>*\<close> is among the groups of the
  allowed collection, and for every token \<^verbatim>\<open>!g\<close> where \<^verbatim>\<open>g\<close> has no \<^verbatim>\<open>-\<close> or \<^verbatim>\<open>=\<close> in
  front and is not \<^verbatim>\<open>*\<close>, \<^verbatim>\<open>g\<close> is among the groups of the blocked collection. Both flag
  slices of the ACL are empty, and the flags of an identity have no influence on
  \<^verbatim>\<open>Allowed\<close>.
\<close>

theorem bare_tokens_are_groups:
  "NewFromString T s = Inr a \<longrightarrow>
     (\<forall>f\<in>set (Fields (ToLower T s)).
        hd f \<noteq> CHR ''!'' \<and> hd f \<noteq> CHR ''-'' \<and> hd f \<noteq> CHR ''='' \<and> f \<noteq> ''*'' \<longrightarrow>
        f \<in> set (groups (allowed a)))
     \<and> (\<forall>g. CHR ''!'' # g \<in> set (Fields (ToLower T s)) \<and>
            g \<noteq> [] \<and> hd g \<noteq> CHR ''-'' \<and> hd g \<noteq> CHR ''='' \<and> g \<noteq> ''*'' \<longrightarrow>
            g \<in> set (groups (blocked a)))
     \<and> flags (allowed a) = [] \<and> flags (blocked a) = []
     \<and> (\<forall>u fs. Allowed T a (u\<lparr>Flags := fs\<rparr>) = Allowed T a u)"
proof
  assume ok: "NewFromString T s = Inr a"
  note p = NewFromString_Inr [OF ok]
  have fl: "flags (allowed a) = [] \<and> flags (blocked a) = []"
    using ok by (rule NewFromString_flags)
  have 1: "\<forall>f\<in>set (Fields (ToLower T s)).
        hd f \<noteq> CHR ''!'' \<and> hd f \<noteq> CHR ''-'' \<and> hd f \<noteq> CHR ''='' \<and> f \<noteq> ''*'' \<longrightarrow>
        f \<in> set (groups (allowed a))"
    using parse_fields_bare [OF p] Fields_nonempty by blast
  have 2: "\<forall>g. CHR ''!'' # g \<in> set (Fields (ToLower T s)) \<and>
            g \<noteq> [] \<and> hd g \<noteq> CHR ''-'' \<and> hd g \<noteq> CHR ''='' \<and> g \<noteq> ''*'' \<longrightarrow>
            g \<in> set (groups (blocked a))"
    using parse_fields_bang_bare [OF p] by blast
  have 3: "\<forall>u fs. Allowed T a (u\<lparr>Flags := fs\<rparr>) = Allowed T a u"
    using fl by (simp add: Allowed_no_flags)
  from 1 2 3 fl show "(\<forall>f\<in>set (Fields (ToLower T s)).
        hd f \<noteq> CHR ''!'' \<and> hd f \<noteq> CHR ''-'' \<and> hd f \<noteq> CHR ''='' \<and> f \<noteq> ''*'' \<longrightarrow>
        f \<in> set (groups (allowed a)))
     \<and> (\<forall>g. CHR ''!'' # g \<in> set (Fields (ToLower T s)) \<and>
            g \<noteq> [] \<and> hd g \<noteq> CHR ''-'' \<and> hd g \<noteq> CHR ''='' \<and> g \<noteq> ''*'' \<longrightarrow>
            g \<in> set (groups (blocked a)))
     \<and> flags (allowed a) = [] \<and> flags (blocked a) = []
     \<and> (\<forall>u fs. Allowed T a (u\<lparr>Flags := fs\<rparr>) = Allowed T a u)"
    by blast
qed

lemma parse_example:
  "NewFromString T ''1 !Siteop =Staff'' =
     Inr \<lparr>allowed = \<lparr>all = False, users = [], groups = [''1'', ''staff''], flags = []\<rparr>,
          blocked = \<lparr>all = False, users = [], groups = [''siteop''], flags = []\<rparr>\<rparr>"
  "Fields (ToLower T ''1 !Siteop =Staff'') = [''1'', ''!siteop'', ''=staff'']"
  by code_simp+

theorem bare_tokens_are_groups_witness:
  "NewFromString latin1 ''1 !Siteop =Staff'' =
     Inr \<lparr>allowed = \<lparr>all = False, users = [], groups = [''1'', ''staff''], flags = []\<rparr>,
          blocked = \<lparr>all = False, users = [], groups = [''siteop''], flags = []\<rparr>\<rparr>
   \<and> ''1'' \<in> set (groups (allowed
         \<lparr>allowed = \<lparr>all = False, users = [], groups = [''1'', ''staff''], flags = []\<rparr>,
          blocked = \<lparr>all = False, users = [], groups = [''siteop''], flags = []\<rparr>\<rparr>))
   \<and> ''siteop'' \<in> set (groups (blocked
         \<lparr>allowed = \<lparr>all = False, users = [], groups = [''1'', ''staff''], flags = []\<rparr>,
          blocked = \<lparr>all = False, users = [], groups = [''siteop''], flags = []\<rparr>\<rparr>))"
  using bare_tokens_are_groups [of latin1 "''1 !Siteop =Staff''"
      "\<lparr>allowed = \<lparr>all = False, users = [], groups = [''1'', ''staff''], flags = []\<rparr>,
        blocked = \<lparr>all = False, users = [], groups = [''siteop''], flags = []\<rparr>\<rparr>"]
  by (simp add: parse_example)

text \<open>
  Names beyond ASCII: an upper-case name is found among lower-case users, and two bytes
  that are no UTF-8 are the same name.
\<close>

lemma membership_examples:
  "has latin1 [[CHR 0xC3, CHR 0xA9]] [CHR 0xC3, CHR 0x89]"
  "NewFromString latin1 [CHR ''-'', CHR 0xFF] =
     Inr \<lparr>allowed = \<lparr>all = False, users = [[CHR 0xEF, CHR 0xBF, CHR 0xBD]], groups = [], flags = []\<rparr>,
          blocked = empty_collection\<rparr>"
  "has latin1 [[CHR 0xEF, CHR 0xBF, CHR 0xBD]] [CHR 0xFE]"
  "NewFromString latin1 [CHR 0xC2, CHR 0xA0] = Inr zero_ACL"
  by (simp_all add: string_eval has_def NewFromString_def parse_field_def parse_switch_def
      zero_ACL_def empty_collection_def append_user_def)





text \<open>
  Claim C10. A string consists of white space only when each of its runes is white
  space for \<^verbatim>\<open>unicode.IsSpace\<close>. On such a string that is not empty, \<^verbatim>\<open>NewFromString\<close>
  returns the zero ACL (no predicate, no wildcard flag) and no error, and \<^verbatim>\<open>Allowed\<close> of
  that ACL is false for every identity; the empty string is rejected. The case table is
  any table that gives no other case to white space.
\<close>

theorem whitespace_only_input:
  "(s \<noteq> [] \<and> (\<forall>r\<in>set (map fst (runes s)). IsSpace r) \<and> (\<forall>r. IsSpace r \<longrightarrow> T r = r) \<longrightarrow>
      NewFromString T s = Inr zero_ACL \<and> (\<forall>u. \<not> Allowed T zero_ACL u))
   \<and> NewFromString T [] = Inl (ErrorNew ''no input string given'')"
proof (intro conjI impI)
  assume a: "s \<noteq> [] \<and> (\<forall>r\<in>set (map fst (runes s)). IsSpace r) \<and> (\<forall>r. IsSpace r \<longrightarrow> T r = r)"
  then have "ToLower T s = s" by (simp add: whitespace_ToLower)
  moreover from a have "Fields s = []" by (simp add: whitespace_Fields)
  ultimately show "NewFromString T s = Inr zero_ACL" using a by (simp add: NewFromString_def)
  show "\<forall>u. \<not> Allowed T zero_ACL u" by (simp add: zero_ACL_denies)
next
  show "NewFromString T [] = Inl (ErrorNew ''no input string given'')"
    by (simp add: NewFromString_def)
qed

text \<open>
  A no-break space, a space, an ideographic space and a tab: seven bytes, four runes.
\<close>

theorem whitespace_only_input_witness:
  "NewFromString latin1 [CHR 0xC2, CHR 0xA0, CHR 0x20, CHR 0xE3, CHR 0x80, CHR 0x80, CHR 0x09]
     = Inr zero_ACL
   \<and> (\<forall>u. \<not> Allowed latin1 zero_ACL u)"
proof -
  have "map fst (runes [CHR 0xC2, CHR 0xA0, CHR 0x20, CHR 0xE3, CHR 0x80, CHR 0x80, CHR 0x09])
          = [0xA0, 0x20, 0x3000, 0x09]"
    by (simp add: DecodeRune_def)
  then have "\<forall>r\<in>set (map fst
       (runes [CHR 0xC2, CHR 0xA0, CHR 0x20, CHR 0xE3, CHR 0x80, CHR 0x80, CHR 0x09])). IsSpace r"
    by (simp add: IsSpace_def)
  with whitespace_only_input
    [of "[CHR 0xC2, CHR 0xA0, CHR 0x20, CHR 0xE3, CHR 0x80, CHR 0x80, CHR 0x09]" latin1]
    latin1_space
  show ?thesis by simp
qed

section \<open>Properties of the authenticator\<close>

lemma takeWhile_marks:
  "takeWhile (\<lambda>c. c = CHR ''#'') (replicate k (CHR ''#'') @ CHR '':'' # r) = replicate k (CHR ''#'')"
  by (induction k) auto

lemma toy_Decode_Encode:
  "toy_Decode (replicate (length n) (CHR ''#'') @ CHR '':'' # n @ p) = \<lparr>Name_Entry = n, Password = p\<rparr>"
  by (simp add: toy_Decode_def takeWhile_marks)

lemma lawful_toy: "lawful toy"
  by (auto simp: lawful_def toy_def toy_Decode_Encode)

lemma GetUser_after_AddUser:
  assumes "lawful L" "AddUser L db name pass = (Inr u, db')"
  shows "GetUser L db' name = Inr u \<and> Name_Entry u = name
         \<and> GenerateFromPassword L pass DefaultCost = Inr (Password u)"
proof -
  from assms(2) obtain h where h: "GenerateFromPassword L pass DefaultCost = Inr h"
    and u: "u = \<lparr>Name_Entry = name, Password = h\<rparr>"
    and upd: "encodeAndUpdate L db u = Inr db'"
    by (auto simp: AddUser_def Let_def split: sum.splits if_splits)
  from upd obtain b where b: "Encode L u = Inr b" "txn_Set L db (Key u) b = Inr db'"
    by (auto simp: encodeAndUpdate_def split: sum.splits)
  from assms(1) b(2) have get: "txn_Get L db' (Key u) = Inr b"
    by (simp add: lawful_def)
  from assms(1) b(1) have dec: "\<And>e. Decode L b e = Inr u"
    by (simp add: lawful_def)
  have "Key \<lparr>Name_Entry = name, Password = []\<rparr> = Key u"
    by (simp add: Key_def u)
  with get dec have "GetUser L db' name = Inr u"
    by (simp add: GetUser_def getAndDecode_def Let_def)
  with h u show ?thesis by simp
qed

lemma toy_AddUser_alice:
  "AddUser toy Map.empty ''alice'' ''pw'' =
     (Inr \<lparr>Name_Entry = ''alice'', Password = ''$toy$wp''\<rparr>,
      [''user:alice'' \<mapsto> ''#####:alice$toy$wp''])"
  by (simp add: AddUser_def GetUser_def getAndDecode_def encodeAndUpdate_def Key_def toy_def
      DefaultCost_def)

lemma toy_GetUser_nobody:
  "GetUser toy [''user:alice'' \<mapsto> ''#####:alice$toy$wp''] ''nobody'' = Inl ErrUserDoesntExist"
  by (simp add: GetUser_def getAndDecode_def Key_def toy_def)

lemma lawful_trunc72: "lawful trunc72"
  by (auto simp: lawful_def trunc72_def toy_def toy_Decode_Encode)

text \<open>
  Claim C4, amended. \<^verbatim>\<open>CheckPassword\<close> returns a truth value and no error. It is false
  whenever \<^verbatim>\<open>GetUser\<close> fails, whatever the error; when \<^verbatim>\<open>GetUser\<close> returns a user it is
  true exactly when the password verifies against the stored hash. After a successful
  \<^verbatim>\<open>AddUser\<close> of a name and a password, with libraries that read back what was written
  and verify a password against its own hash, \<^verbatim>\<open>CheckPassword\<close> is true for this name and
  password, and for the name and any other password it is true exactly when that
  password verifies against the hash stored for the first one.
\<close>

theorem CheckPassword_total:
  "(\<forall>err. GetUser L db name = Inl err \<longrightarrow> \<not> CheckPassword L db name pass)
   \<and> (\<forall>u. GetUser L db name = Inr u \<longrightarrow>
          CheckPassword L db name pass = (CompareHashAndPassword L (Password u) pass = None))
   \<and> (\<forall>u db'. lawful L \<and> AddUser L db name pass = (Inr u, db') \<longrightarrow>
          GenerateFromPassword L pass DefaultCost = Inr (Password u)
          \<and> CheckPassword L db' name pass
          \<and> (\<forall>wrong. CheckPassword L db' name wrong
                = (CompareHashAndPassword L (Password u) wrong = None)))"
proof (intro conjI allI impI)
  fix err assume "GetUser L db name = Inl err"
  then show "\<not> CheckPassword L db name pass" by (simp add: CheckPassword_def)
next
  fix u assume "GetUser L db name = Inr u"
  then show "CheckPassword L db name pass = (CompareHashAndPassword L (Password u) pass = None)"
    by (simp add: CheckPassword_def split: option.splits)
next
  fix u db' assume a: "lawful L \<and> AddUser L db name pass = (Inr u, db')"
  then have g: "GetUser L db' name = Inr u"
    and h: "GenerateFromPassword L pass DefaultCost = Inr (Password u)"
    using GetUser_after_AddUser [of L db name pass u db'] by simp_all
  show "GenerateFromPassword L pass DefaultCost = Inr (Password u)" by (rule h)
  from a h have "CompareHashAndPassword L (Password u) pass = None"
    by (auto simp: lawful_def)
  with g show "CheckPassword L db' name pass" by (simp add: CheckPassword_def)
next
  fix u db' wrong
  assume a: "lawful L \<and> AddUser L db name pass = (Inr u, db')"
  then have g: "GetUser L db' name = Inr u"
    using GetUser_after_AddUser [of L db name pass u db'] by simp
  then show "CheckPassword L db' name wrong = (CompareHashAndPassword L (Password u) wrong = None)"
    by (simp add: CheckPassword_def split: option.splits)
qed

theorem CheckPassword_total_witness:
  "CheckPassword toy [''user:alice'' \<mapsto> ''#####:alice$toy$wp''] ''alice'' ''pw''
   \<and> \<not> CheckPassword toy [''user:alice'' \<mapsto> ''#####:alice$toy$wp''] ''alice'' ''wrong''
   \<and> \<not> CheckPassword toy [''user:alice'' \<mapsto> ''#####:alice$toy$wp''] ''nobody'' ''x''"
proof -
  have w: "CompareHashAndPassword toy ''$toy$wp'' ''wrong'' \<noteq> None"
    by (simp add: toy_def)
  have "lawful toy \<and> AddUser toy Map.empty ''alice'' ''pw'' =
     (Inr \<lparr>Name_Entry = ''alice'', Password = ''$toy$wp''\<rparr>,
      [''user:alice'' \<mapsto> ''#####:alice$toy$wp''])"
    using lawful_toy toy_AddUser_alice by (rule conjI)
  note r = CheckPassword_total [of toy Map.empty "''alice''" "''pw''", THEN conjunct2,
      THEN conjunct2, rule_format, OF this]
  from r [THEN conjunct2, THEN conjunct2, rule_format, of "''wrong''"] w
  have "\<not> CheckPassword toy [''user:alice'' \<mapsto> ''#####:alice$toy$wp''] ''alice'' ''wrong''"
    by simp
  with r [THEN conjunct2, THEN conjunct1]
  have 1: "CheckPassword toy [''user:alice'' \<mapsto> ''#####:alice$toy$wp''] ''alice'' ''pw''
   \<and> \<not> CheckPassword toy [''user:alice'' \<mapsto> ''#####:alice$toy$wp''] ''alice'' ''wrong''"
    by (rule conjI)
  from CheckPassword_total [of toy "[''user:alice'' \<mapsto> ''#####:alice$toy$wp'']" "''nobody''" "''x''",
      THEN conjunct1, rule_format, OF toy_GetUser_nobody]
  have 2: "\<not> CheckPassword toy [''user:alice'' \<mapsto> ''#####:alice$toy$wp''] ''nobody'' ''x''" .
  from 1 2 show ?thesis by simp
qed

text \<open>
  Claim C4 as it is worded: after a successful \<^verbatim>\<open>AddUser\<close> of a name and a password,
  \<^verbatim>\<open>CheckPassword\<close> is false for every other password. It is not: with a hash that reads
  the first 72 bytes of the password only, as bcrypt does, \<^verbatim>\<open>AddUser\<close> of \<^verbatim>\<open>alice\<close> with
  72 letters \<^verbatim>\<open>a\<close> succeeds, and \<^verbatim>\<open>CheckPassword\<close> accepts these 72 letters followed by
  \<^verbatim>\<open>b\<close>.
\<close>

theorem CheckPassword_wrong_counterexample:
  "\<not> isl (fst (AddUser trunc72 Map.empty ''alice'' (replicate 72 (CHR ''a''))))
   \<and> replicate 72 (CHR ''a'') \<noteq> replicate 72 (CHR ''a'') @ ''b''
   \<and> CheckPassword trunc72
        (snd (AddUser trunc72 Map.empty ''alice'' (replicate 72 (CHR ''a''))))
        ''alice'' (replicate 72 (CHR ''a'') @ ''b'')"
proof -
  let ?h = "''$toy$'' @ rev (replicate 72 (CHR ''a''))"
  let ?u = "\<lparr>Name_Entry = ''alice'', Password = ?h\<rparr>"
  let ?db = "[''user:alice'' \<mapsto> replicate (length ''alice'') (CHR ''#'') @ CHR '':'' # ''alice'' @ ?h]"
  have add: "AddUser trunc72 Map.empty ''alice'' (replicate 72 (CHR ''a'')) = (Inr ?u, ?db)"
    by (simp add: AddUser_def GetUser_def getAndDecode_def encodeAndUpdate_def Key_def
        trunc72_def toy_def DefaultCost_def)
  from GetUser_after_AddUser [OF lawful_trunc72 add]
  have "GetUser trunc72 ?db ''alice'' = Inr ?u" by simp
  then have "CheckPassword trunc72 ?db ''alice'' (replicate 72 (CHR ''a'') @ ''b'')"
    by (simp add: CheckPassword_def trunc72_def)
  with add show ?thesis by simp
qed

text \<open>
  Claim C5. When \<^verbatim>\<open>GetUser\<close> finds a user of that name, \<^verbatim>\<open>AddUser\<close> fails with
  \<^verbatim>\<open>ErrUserExists\<close> and the store is the one before the call, so the record and its
  password hash are as they were. When \<^verbatim>\<open>GetUser\<close> reports \<^verbatim>\<open>ErrUserDoesntExist\<close> and the
  hashing and the write succeed, \<^verbatim>\<open>AddUser\<close> returns the user made of the name and of the
  result of \<^verbatim>\<open>bcrypt.GenerateFromPassword\<close>, and that record is what \<^verbatim>\<open>GetUser\<close> reads from
  the new store. Every user that \<^verbatim>\<open>AddUser\<close> returns has this form; every failure leaves
  the store as it was; a second \<^verbatim>\<open>AddUser\<close> of the name fails with \<^verbatim>\<open>ErrUserExists\<close> and
  keeps the first record. That the result of bcrypt is a salted one-way hash is a
  property of that library, which is a parameter here.
\<close>

theorem AddUser_outcomes:
  "(\<forall>u0. GetUser L db name = Inr u0 \<longrightarrow> AddUser L db name pass = (Inl ErrUserExists, db))
   \<and> (\<forall>h db'. GetUser L db name = Inl ErrUserDoesntExist
          \<and> GenerateFromPassword L pass DefaultCost = Inr h
          \<and> encodeAndUpdate L db \<lparr>Name_Entry = name, Password = h\<rparr> = Inr db' \<longrightarrow>
          AddUser L db name pass = (Inr \<lparr>Name_Entry = name, Password = h\<rparr>, db')
          \<and> (lawful L \<longrightarrow> GetUser L db' name = Inr \<lparr>Name_Entry = name, Password = h\<rparr>))
   \<and> (\<forall>u db'. AddUser L db name pass = (Inr u, db') \<longrightarrow>
          GetUser L db name = Inl ErrUserDoesntExist \<and> Name_Entry u = name
          \<and> GenerateFromPassword L pass DefaultCost = Inr (Password u))
   \<and> (\<forall>err db'. AddUser L db name pass = (Inl err, db') \<longrightarrow> db' = db)
   \<and> (\<forall>u db' pass2. lawful L \<and> AddUser L db name pass = (Inr u, db') \<longrightarrow>
          GetUser L db' name = Inr u \<and> AddUser L db' name pass2 = (Inl ErrUserExists, db'))"
proof (intro conjI allI impI)
  fix u0 assume "GetUser L db name = Inr u0"
  then show "AddUser L db name pass = (Inl ErrUserExists, db)" by (simp add: AddUser_def)
next
  fix h db'
  assume a: "GetUser L db name = Inl ErrUserDoesntExist
          \<and> GenerateFromPassword L pass DefaultCost = Inr h
          \<and> encodeAndUpdate L db \<lparr>Name_Entry = name, Password = h\<rparr> = Inr db'"
  then show r: "AddUser L db name pass = (Inr \<lparr>Name_Entry = name, Password = h\<rparr>, db')"
    by (simp add: AddUser_def)
  assume "lawful L"
  from GetUser_after_AddUser [OF this r]
  show "GetUser L db' name = Inr \<lparr>Name_Entry = name, Password = h\<rparr>" by simp
next
  fix u db' assume "AddUser L db name pass = (Inr u, db')"
  then show "GetUser L db name = Inl ErrUserDoesntExist" "Name_Entry u = name"
    "GenerateFromPassword L pass DefaultCost = Inr (Password u)"
    by (auto simp: AddUser_def Let_def split: sum.splits if_splits)
next
  fix err db' assume "AddUser L db name pass = (Inl err, db')"
  then show "db' = db"
    by (auto simp: AddUser_def Let_def split: sum.splits if_splits)
next
  fix u db' pass2 assume a: "lawful L \<and> AddUser L db name pass = (Inr u, db')"
  then show g: "GetUser L db' name = Inr u"
    using GetUser_after_AddUser [of L db name pass u db'] by simp
  then show "AddUser L db' name pass2 = (Inl ErrUserExists, db')" by (simp add: AddUser_def)
qed

theorem AddUser_outcomes_witness:
  "AddUser toy Map.empty ''alice'' ''pw'' =
     (Inr \<lparr>Name_Entry = ''alice'', Password = ''$toy$wp''\<rparr>,
      [''user:alice'' \<mapsto> ''#####:alice$toy$wp''])
   \<and> GetUser toy [''user:alice'' \<mapsto> ''#####:alice$toy$wp''] ''alice'' =
       Inr \<lparr>Name_Entry = ''alice'', Password = ''$toy$wp''\<rparr>
   \<and> AddUser toy [''user:alice'' \<mapsto> ''#####:alice$toy$wp''] ''alice'' ''other'' =
       (Inl ErrUserExists, [''user:alice'' \<mapsto> ''#####:alice$toy$wp''])"
proof -
  have "lawful toy \<and> AddUser toy Map.empty ''alice'' ''pw'' =
     (Inr \<lparr>Name_Entry = ''alice'', Password = ''$toy$wp''\<rparr>,
      [''user:alice'' \<mapsto> ''#####:alice$toy$wp''])"
    using lawful_toy toy_AddUser_alice by (rule conjI)
  from AddUser_outcomes [of toy Map.empty "''alice''" "''pw''", THEN conjunct2, THEN conjunct2,
      THEN conjunct2, THEN conjunct2, rule_format, OF this, of "''other''"]
  have "GetUser toy [''user:alice'' \<mapsto> ''#####:alice$toy$wp''] ''alice'' =
       Inr \<lparr>Name_Entry = ''alice'', Password = ''$toy$wp''\<rparr>
   \<and> AddUser toy [''user:alice'' \<mapsto> ''#####:alice$toy$wp''] ''alice'' ''other'' =
       (Inl ErrUserExists, [''user:alice'' \<mapsto> ''#####:alice$toy$wp''])" .
  with toy_AddUser_alice show ?thesis by (rule conjI)
qed

text \<open>
  Claim C9. The claim: \<^verbatim>\<open>ChangePassword\<close> succeeds for an existing user and makes the new
  password the one that \<^verbatim>\<open>CheckPassword\<close> accepts. The code returns the error
  \<^verbatim>\<open>stub\<close> on every input and leaves the store alone: for the stored user \<^verbatim>\<open>alice\<close> the
  new password is not accepted afterwards.
\<close>

theorem ChangePassword_stub:
  "ChangePassword L db user pass = (Some (ErrorNew ''stub''), db)
   \<and> GetUser toy [''user:alice'' \<mapsto> ''#####:alice$toy$wp''] ''alice'' =
       Inr \<lparr>Name_Entry = ''alice'', Password = ''$toy$wp''\<rparr>
   \<and> \<not> CheckPassword toy
         (snd (ChangePassword toy [''user:alice'' \<mapsto> ''#####:alice$toy$wp''] ''alice'' ''new''))
         ''alice'' ''new''"
  by (simp add: ChangePassword_def CheckPassword_def GetUser_def getAndDecode_def Key_def toy_def
      toy_Decode_def)

section \<open>Properties of rules and permissions\<close>

lemma entries_upd:
  "entries (p(sc \<mapsto> es)) sc' = (if sc' = sc then es else entries p sc')"
  by (simp add: entries_def)

lemma present_upd:
  "path x \<in> set (map fst (entries (p(scope r \<mapsto> entries p (scope r) @ [(path r, acl r)])) (scope x)))
   \<longleftrightarrow> path x \<in> set (map fst (entries p (scope x))) \<or> (scope r = scope x \<and> path r = path x)"
  by (auto simp: entries_upd)

lemma insert_rules_fails_iff:
  "(\<exists>e. insert_rules p rs = Inl e) \<longleftrightarrow>
     \<not> distinct (map (\<lambda>r. (scope r, path r)) rs)
     \<or> (\<exists>r\<in>set rs. path r \<in> set (map fst (entries p (scope r))))"
proof (induction rs arbitrary: p)
  case Nil
  show ?case by simp
next
  case (Cons r rs)
  show ?case
  proof (cases "path r \<in> set (map fst (entries p (scope r)))")
    case True
    then show ?thesis by auto
  next
    case False
    let ?p = "p(scope r \<mapsto> entries p (scope r) @ [(path r, acl r)])"
    have "(\<exists>e. insert_rules p (r # rs) = Inl e) \<longleftrightarrow> (\<exists>e. insert_rules ?p rs = Inl e)"
      using False by simp
    also have "\<dots> \<longleftrightarrow> \<not> distinct (map (\<lambda>r. (scope r, path r)) rs)
       \<or> (\<exists>x\<in>set rs. path x \<in> set (map fst (entries ?p (scope x))))"
      by (rule Cons.IH)
    also have "\<dots> \<longleftrightarrow> \<not> distinct (map (\<lambda>r. (scope r, path r)) (r # rs))
       \<or> (\<exists>x\<in>set (r # rs). path x \<in> set (map fst (entries p (scope x))))"
      unfolding present_upd using False by (auto simp: image_iff)
    finally show ?thesis .
  qed
qed

lemma insert_rules_error:
  assumes "insert_rules p rs = Inl e"
  shows "\<exists>xs r ys. rs = xs @ r # ys \<and> e = ErrorNew (exists_message r)
           \<and> distinct (map (\<lambda>r. (scope r, path r)) xs)
           \<and> (\<forall>x\<in>set xs. path x \<notin> set (map fst (entries p (scope x))))
           \<and> (path r \<in> set (map fst (entries p (scope r)))
                \<or> (scope r, path r) \<in> set (map (\<lambda>r. (scope r, path r)) xs))"
  using assms
proof (induction rs arbitrary: p)
  case Nil
  then show ?case by simp
next
  case (Cons r rs)
  show ?case
  proof (cases "path r \<in> set (map fst (entries p (scope r)))")
    case True
    with Cons.prems have "e = ErrorNew (exists_message r)" by simp
    with True have "r # rs = [] @ r # rs \<and> e = ErrorNew (exists_message r)
           \<and> distinct (map (\<lambda>r. (scope r, path r)) [])
           \<and> (\<forall>x\<in>set []. path x \<notin> set (map fst (entries p (scope x))))
           \<and> (path r \<in> set (map fst (entries p (scope r)))
                \<or> (scope r, path r) \<in> set (map (\<lambda>r. (scope r, path r)) []))"
      by simp
    then show ?thesis by blast
  next
    case False
    let ?p = "p(scope r \<mapsto> entries p (scope r) @ [(path r, acl r)])"
    from Cons.prems False have "insert_rules ?p rs = Inl e" by simp
    from Cons.IH [OF this] obtain xs x ys where
      rs: "rs = xs @ x # ys" and e: "e = ErrorNew (exists_message x)"
      and d: "distinct (map (\<lambda>r. (scope r, path r)) xs)"
      and n: "\<forall>y\<in>set xs. path y \<notin> set (map fst (entries ?p (scope y)))"
      and h: "path x \<in> set (map fst (entries ?p (scope x)))
                \<or> (scope x, path x) \<in> set (map (\<lambda>r. (scope r, path r)) xs)"
      by blast
    have 1: "r # rs = (r # xs) @ x # ys" using rs by simp
    have 2: "distinct (map (\<lambda>r. (scope r, path r)) (r # xs))"
      using d n unfolding present_upd by (auto simp: image_iff)
    have 3: "\<forall>y\<in>set (r # xs). path y \<notin> set (map fst (entries p (scope y)))"
      using False n unfolding present_upd by simp
    have 4: "path x \<in> set (map fst (entries p (scope x)))
                \<or> (scope x, path x) \<in> set (map (\<lambda>r. (scope r, path r)) (r # xs))"
      using h unfolding present_upd by (auto simp: image_iff)
    from 1 e 2 3 4 show ?thesis by blast
  qed
qed

lemma empty_Permissions_deny: "\<not> Permissions_Allowed T Map.empty sc q u"
  by (simp add: Permissions_Allowed_def)


text \<open>
  Claim C7. \<^verbatim>\<open>NewPermissions\<close> fails exactly when two rules of the sequence have the same
  scope and the same path. The error is then the message
  \<^verbatim>\<open>path '<path>' for scope '<scope>' already exists\<close> for the first rule of the sequence
  that repeats the scope and the path of a rule before it. The empty sequence gives the
  empty \<^verbatim>\<open>Permissions\<close>, for which every check is false.
\<close>

theorem NewPermissions_duplicates:
  "((\<exists>e. NewPermissions rules = Inl e) \<longleftrightarrow> \<not> distinct (map (\<lambda>r. (scope r, path r)) rules))
   \<and> (\<forall>e. NewPermissions rules = Inl e \<longrightarrow>
         (\<exists>xs r ys. rules = xs @ r # ys
            \<and> distinct (map (\<lambda>r. (scope r, path r)) xs)
            \<and> (scope r, path r) \<in> set (map (\<lambda>r. (scope r, path r)) xs)
            \<and> e = ErrorNew (''path '' @ quoted (path r) @ '' for scope '' @ quoted (scope r)
                              @ '' already exists'')))
   \<and> NewPermissions [] = Inr Map.empty
   \<and> (\<forall>sc q u. \<not> Permissions_Allowed T Map.empty sc q u)"
proof (intro conjI allI impI)
  show "(\<exists>e. NewPermissions rules = Inl e) \<longleftrightarrow> \<not> distinct (map (\<lambda>r. (scope r, path r)) rules)"
    unfolding NewPermissions_def insert_rules_fails_iff by (simp add: entries_def)
next
  fix e assume "NewPermissions rules = Inl e"
  then have "insert_rules Map.empty rules = Inl e" by (simp add: NewPermissions_def)
  from insert_rules_error [OF this]
  show "\<exists>xs r ys. rules = xs @ r # ys
            \<and> distinct (map (\<lambda>r. (scope r, path r)) xs)
            \<and> (scope r, path r) \<in> set (map (\<lambda>r. (scope r, path r)) xs)
            \<and> e = ErrorNew (''path '' @ quoted (path r) @ '' for scope '' @ quoted (scope r)
                              @ '' already exists'')"
    by (simp add: entries_def exists_message_def) blast
next
  show "NewPermissions [] = Inr Map.empty" by (simp add: NewPermissions_def)
next
  fix sc q u show "\<not> Permissions_Allowed T Map.empty sc q u" by (rule empty_Permissions_deny)
qed

theorem NewPermissions_duplicates_witness:
  "NewPermissions
     [\<lparr>path = ''/dir/a'', scope = ''download'',
        acl = \<lparr>allowed = empty_collection\<lparr>all := True\<rparr>, blocked = empty_collection\<rparr>\<rparr>,
      \<lparr>path = ''/dir/a'', scope = ''download'',
        acl = \<lparr>allowed = empty_collection, blocked = empty_collection\<lparr>all := True\<rparr>\<rparr>\<rparr>]
   = Inl (ErrorNew (''path '' @ quoted ''/dir/a'' @ '' for scope '' @ quoted ''download''
                    @ '' already exists''))
   \<and> (\<exists>p. NewPermissions
     [\<lparr>path = ''/dir/a'', scope = ''download'',
        acl = \<lparr>allowed = empty_collection\<lparr>all := True\<rparr>, blocked = empty_collection\<rparr>\<rparr>,
      \<lparr>path = ''/dir/b'', scope = ''download'',
        acl = \<lparr>allowed = empty_collection, blocked = empty_collection\<lparr>all := True\<rparr>\<rparr>\<rparr>] = Inr p)"
proof -
  let ?r1 = "\<lparr>path = ''/dir/a'', scope = ''download'',
        acl = \<lparr>allowed = empty_collection\<lparr>all := True\<rparr>, blocked = empty_collection\<rparr>\<rparr>"
  let ?r2 = "\<lparr>path = ''/dir/a'', scope = ''download'',
        acl = \<lparr>allowed = empty_collection, blocked = empty_collection\<lparr>all := True\<rparr>\<rparr>\<rparr>"
  let ?r3 = "\<lparr>path = ''/dir/b'', scope = ''download'',
        acl = \<lparr>allowed = empty_collection, blocked = empty_collection\<lparr>all := True\<rparr>\<rparr>\<rparr>"
  have "\<not> distinct (map (\<lambda>r. (scope r, path r)) [?r1, ?r2])" by simp
  with NewPermissions_duplicates [of "[?r1, ?r2]", THEN conjunct1]
  obtain e where e: "NewPermissions [?r1, ?r2] = Inl e" by blast
  from NewPermissions_duplicates [of "[?r1, ?r2]", THEN conjunct2, THEN conjunct1, rule_format, OF e]
  obtain xs r ys where d: "[?r1, ?r2] = xs @ r # ys"
    "(scope r, path r) \<in> set (map (\<lambda>r. (scope r, path r)) xs)"
    "e = ErrorNew (''path '' @ quoted (path r) @ '' for scope '' @ quoted (scope r)
                              @ '' already exists'')"
    by blast
  from d(1,2) have "path r = ''/dir/a'' \<and> scope r = ''download''"
    by (cases xs) (auto simp: Cons_eq_append_conv)
  with e d(3) have 1: "NewPermissions [?r1, ?r2]
   = Inl (ErrorNew (''path '' @ quoted ''/dir/a'' @ '' for scope '' @ quoted ''download''
                    @ '' already exists''))" by simp
  have "distinct (map (\<lambda>r. (scope r, path r)) [?r1, ?r3])" by simp
  with NewPermissions_duplicates [of "[?r1, ?r3]", THEN conjunct1]
  have "\<not> (\<exists>e. NewPermissions [?r1, ?r3] = Inl e)" by blast
  then have 2: "\<exists>p. NewPermissions [?r1, ?r3] = Inr p"
    by (cases "NewPermissions [?r1, ?r3]") auto
  from 1 2 show ?thesis by (rule conjI)
qed

lemma select_rule_None:
  "select_rule q es best = None \<longleftrightarrow>
     best = None \<and> (\<forall>e\<in>set es. \<not> ancestor_or_equal (fst e) q)"
  by (induction es arbitrary: best) (auto split: option.splits)

lemma select_rule_Some:
  assumes "select_rule q es best = Some e"
    and "\<forall>b. best = Some b \<longrightarrow> ancestor_or_equal (fst b) q"
  shows "(e \<in> set es \<or> best = Some e) \<and> ancestor_or_equal (fst e) q
     \<and> (\<forall>e'\<in>set es. ancestor_or_equal (fst e') q \<longrightarrow> length (fst e') \<le> length (fst e))
     \<and> (\<forall>b. best = Some b \<longrightarrow> length (fst b) \<le> length (fst e))"
  using assms
proof (induction es arbitrary: best)
  case Nil
  then show ?case by simp
next
  case (Cons x es)
  show ?case
  proof (cases "ancestor_or_equal (fst x) q \<and>
         (case best of None \<Rightarrow> True | Some b \<Rightarrow> length (fst b) < length (fst x))")
    case True
    with Cons.prems(1) have "select_rule q es (Some x) = Some e" by simp
    from Cons.IH [OF this] True
    have "(e \<in> set es \<or> Some x = Some e) \<and> ancestor_or_equal (fst e) q
     \<and> (\<forall>e'\<in>set es. ancestor_or_equal (fst e') q \<longrightarrow> length (fst e') \<le> length (fst e))
     \<and> length (fst x) \<le> length (fst e)" by simp
    with True show ?thesis by (auto split: option.splits)
  next
    case False
    with Cons.prems(1) have "select_rule q es best = Some e" by auto
    from Cons.IH [OF this Cons.prems(2)]
    have ih: "(e \<in> set es \<or> best = Some e) \<and> ancestor_or_equal (fst e) q
     \<and> (\<forall>e'\<in>set es. ancestor_or_equal (fst e') q \<longrightarrow> length (fst e') \<le> length (fst e))
     \<and> (\<forall>b. best = Some b \<longrightarrow> length (fst b) \<le> length (fst e))" .
    have "ancestor_or_equal (fst x) q \<longrightarrow> length (fst x) \<le> length (fst e)"
      using False ih by (cases best) auto
    with ih show ?thesis by auto
  qed
qed


lemma ancestor_examples:
  "ancestor_or_equal ''/'' ''/dir/a''"
  "ancestor_or_equal ''/dir'' ''/dir/a''"
  "ancestor_or_equal ''/'' ''/other''"
  "\<not> ancestor_or_equal ''/dir'' ''/other''"
  by code_simp+


text \<open>
  Claim C2. \<^verbatim>\<open>Permissions.Allowed\<close> is false when the scope has no rules, and false when
  no rule of the scope has a path that is an ancestor of or equal to the queried path,
  compared segment by segment. Otherwise its result is \<^verbatim>\<open>ACL.Allowed\<close> of a rule of the
  scope whose path is such an ancestor and at least as long as the path of every other
  such rule. \<^verbatim>\<open>/\<close> and \<^verbatim>\<open>/dir\<close> are ancestors of \<^verbatim>\<open>/dir/a\<close>; \<^verbatim>\<open>/di\<close> (a prefix of the
  string only) and \<^verbatim>\<open>/some/path\<close> are not.
\<close>

theorem Permissions_Allowed_longest_ancestor:
  "(p sc = None \<longrightarrow> \<not> Permissions_Allowed T p sc q u)
   \<and> (\<forall>es. p sc = Some es \<and> (\<forall>e\<in>set es. \<not> ancestor_or_equal (fst e) q) \<longrightarrow>
          \<not> Permissions_Allowed T p sc q u)
   \<and> (\<forall>es. p sc = Some es \<and> (\<exists>e\<in>set es. ancestor_or_equal (fst e) q) \<longrightarrow>
          (\<exists>e\<in>set es. ancestor_or_equal (fst e) q
             \<and> (\<forall>e'\<in>set es. ancestor_or_equal (fst e') q \<longrightarrow> length (fst e') \<le> length (fst e))
             \<and> Permissions_Allowed T p sc q u = Allowed T (snd e) u))
   \<and> ancestor_or_equal ''/'' ''/dir/a''
   \<and> ancestor_or_equal ''/dir'' ''/dir/a''
   \<and> \<not> ancestor_or_equal ''/di'' ''/dir/a''
   \<and> \<not> ancestor_or_equal ''/some/path'' ''/dir/a''"
proof (intro conjI allI impI)
  assume "p sc = None"
  then show "\<not> Permissions_Allowed T p sc q u" by (simp add: Permissions_Allowed_def)
next
  fix es assume "p sc = Some es \<and> (\<forall>e\<in>set es. \<not> ancestor_or_equal (fst e) q)"
  then have "p sc = Some es" "select_rule q es None = None"
    by (simp_all add: select_rule_None)
  then show "\<not> Permissions_Allowed T p sc q u" by (simp add: Permissions_Allowed_def)
next
  fix es assume a: "p sc = Some es \<and> (\<exists>e\<in>set es. ancestor_or_equal (fst e) q)"
  then have "select_rule q es None \<noteq> None" by (simp add: select_rule_None)
  then obtain e where e: "select_rule q es None = Some e" by blast
  from select_rule_Some [OF e]
  have "e \<in> set es" "ancestor_or_equal (fst e) q"
    "\<forall>e'\<in>set es. ancestor_or_equal (fst e') q \<longrightarrow> length (fst e') \<le> length (fst e)"
    by simp_all
  moreover from a e have "Permissions_Allowed T p sc q u = Allowed T (snd e) u"
    by (simp add: Permissions_Allowed_def)
  ultimately show "\<exists>e\<in>set es. ancestor_or_equal (fst e) q
             \<and> (\<forall>e'\<in>set es. ancestor_or_equal (fst e') q \<longrightarrow> length (fst e') \<le> length (fst e))
             \<and> Permissions_Allowed T p sc q u = Allowed T (snd e) u"
    by blast
next
  show "ancestor_or_equal ''/'' ''/dir/a''" by code_simp
  show "ancestor_or_equal ''/dir'' ''/dir/a''" by code_simp
  show "\<not> ancestor_or_equal ''/di'' ''/dir/a''" by code_simp
  show "\<not> ancestor_or_equal ''/some/path'' ''/dir/a''" by code_simp
qed


text \<open>
  With a rule at \<^verbatim>\<open>/\<close> that allows everybody and a rule at \<^verbatim>\<open>/dir\<close> that blocks
  everybody, \<^verbatim>\<open>/dir/a\<close> is decided by the rule at \<^verbatim>\<open>/dir\<close> and \<^verbatim>\<open>/other\<close> by the rule at
  \<^verbatim>\<open>/\<close>; the scope \<^verbatim>\<open>upload\<close> has no rule.
\<close>

theorem Permissions_Allowed_longest_ancestor_witness:
  "\<not> Permissions_Allowed latin1
        [''download'' \<mapsto> [(''/'', \<lparr>allowed = empty_collection\<lparr>all := True\<rparr>, blocked = empty_collection\<rparr>),
                          (''/dir'', \<lparr>allowed = empty_collection, blocked = empty_collection\<lparr>all := True\<rparr>\<rparr>)]]
        ''download'' ''/dir/a'' \<lparr>Name = ''user'', Groups = [], Flags = []\<rparr>
   \<and> Permissions_Allowed latin1
        [''download'' \<mapsto> [(''/'', \<lparr>allowed = empty_collection\<lparr>all := True\<rparr>, blocked = empty_collection\<rparr>),
                          (''/dir'', \<lparr>allowed = empty_collection, blocked = empty_collection\<lparr>all := True\<rparr>\<rparr>)]]
        ''download'' ''/other'' \<lparr>Name = ''user'', Groups = [], Flags = []\<rparr>
   \<and> \<not> Permissions_Allowed latin1
        [''download'' \<mapsto> [(''/'', \<lparr>allowed = empty_collection\<lparr>all := True\<rparr>, blocked = empty_collection\<rparr>),
                          (''/dir'', \<lparr>allowed = empty_collection, blocked = empty_collection\<lparr>all := True\<rparr>\<rparr>)]]
        ''upload'' ''/dir/a'' \<lparr>Name = ''user'', Groups = [], Flags = []\<rparr>"
proof -
  let ?allow = "\<lparr>allowed = empty_collection\<lparr>all := True\<rparr>, blocked = empty_collection\<rparr>"
  let ?deny = "\<lparr>allowed = empty_collection, blocked = empty_collection\<lparr>all := True\<rparr>\<rparr>"
  let ?es = "[(''/'', ?allow), (''/dir'', ?deny)]"
  let ?p = "[''download'' \<mapsto> ?es]"
  let ?u = "\<lparr>Name = ''user'', Groups = [], Flags = []\<rparr>"
  have A: "Allowed latin1 ?allow ?u" "\<not> Allowed latin1 ?deny ?u"
    by (simp_all add: Allowed_def empty_collection_def hasUser_def hasGroup_def hasFlag_def has_def)
  have 1: "\<not> Permissions_Allowed latin1 ?p ''download'' ''/dir/a'' ?u"
    using Permissions_Allowed_longest_ancestor [of ?p "''download''" latin1 "''/dir/a''" ?u,
        THEN conjunct2, THEN conjunct2, THEN conjunct1, rule_format, of ?es] A
    by (simp add: ancestor_examples)
  have 2: "Permissions_Allowed latin1 ?p ''download'' ''/other'' ?u"
    using Permissions_Allowed_longest_ancestor [of ?p "''download''" latin1 "''/other''" ?u,
        THEN conjunct2, THEN conjunct2, THEN conjunct1, rule_format, of ?es] A
    by (simp add: ancestor_examples)
  have 3: "\<not> Permissions_Allowed latin1 ?p ''upload'' ''/dir/a'' ?u"
    using Permissions_Allowed_longest_ancestor [of ?p "''upload''" latin1 "''/dir/a''" ?u,
        THEN conjunct1]
    by simp
  from 1 2 3 show ?thesis by simp
qed


text \<open>
  The cases of \<^verbatim>\<open>TestPermissionsCheck\<close> and the cases of \<^verbatim>\<open>TestNewRule\<close> that pass on the
  code, run on the definitions above.
\<close>

lemma TestPermissionsCheck_cases:
  "(case NewRule T ''download /dir/a *'' of Inl e \<Rightarrow> None | Inr r \<Rightarrow>
     (case NewPermissions [r] of Inl e \<Rightarrow> None | Inr p \<Rightarrow>
        Some (Permissions_Allowed T p PermissionScopeDownload ''/dir/a''
                \<lparr>Name = ''user'', Groups = [], Flags = []\<rparr>))) = Some True"
  "(case NewRule T ''download /dir/a !*'' of Inl e \<Rightarrow> None | Inr r \<Rightarrow>
     (case NewPermissions [r] of Inl e \<Rightarrow> None | Inr p \<Rightarrow>
        Some (Permissions_Allowed T p PermissionScopeDownload ''/dir/a''
                \<lparr>Name = ''user'', Groups = [], Flags = []\<rparr>))) = Some False"
  "(case NewRule T ''download /dir/a -user !*'' of Inl e \<Rightarrow> None | Inr r \<Rightarrow>
     (case NewPermissions [r] of Inl e \<Rightarrow> None | Inr p \<Rightarrow>
        Some (Permissions_Allowed T p PermissionScopeDownload ''/dir/a''
                \<lparr>Name = ''user'', Groups = [], Flags = []\<rparr>))) = Some True"
  "(case NewRule T ''download /dir/a =group !*'' of Inl e \<Rightarrow> None | Inr r \<Rightarrow>
     (case NewPermissions [r] of Inl e \<Rightarrow> None | Inr p \<Rightarrow>
        Some (Permissions_Allowed T p PermissionScopeDownload ''/dir/a''
                \<lparr>Name = ''user'', Groups = [''group''], Flags = []\<rparr>))) = Some True"
  "(case NewRule T ''download / =group !*'' of Inl e \<Rightarrow> None | Inr r \<Rightarrow>
     (case NewPermissions [r] of Inl e \<Rightarrow> None | Inr p \<Rightarrow>
        Some (Permissions_Allowed T p PermissionScopeDownload ''/dir/a''
                \<lparr>Name = ''user'', Groups = [''group''], Flags = []\<rparr>))) = Some True"
  "(case NewRule T ''download / =group !*'' of Inl e \<Rightarrow> None | Inr r \<Rightarrow>
     (case NewPermissions [r] of Inl e \<Rightarrow> None | Inr p \<Rightarrow>
        Some (Permissions_Allowed T p PermissionScopeUpload ''/dir/a''
                \<lparr>Name = ''user'', Groups = [''group''], Flags = []\<rparr>))) = Some False"
  "(case NewRule T ''download /some/path =group !*'' of Inl e \<Rightarrow> None | Inr r \<Rightarrow>
     (case NewPermissions [r] of Inl e \<Rightarrow> None | Inr p \<Rightarrow>
        Some (Permissions_Allowed T p PermissionScopeDownload ''/dir/a''
                \<lparr>Name = ''user'', Groups = [''group''], Flags = []\<rparr>))) = Some False"
  by code_simp+

lemma TestNewRule_cases:
  "NewRule T ''download /path/test/dir -user !*'' =
     Inr \<lparr>path = ''/path/test/dir'', scope = PermissionScopeDownload,
          acl = \<lparr>allowed = \<lparr>all = False, users = [''user''], groups = [], flags = []\<rparr>,
                 blocked = \<lparr>all = True, users = [], groups = [], flags = []\<rparr>\<rparr>\<rparr>"
  "NewRule T ''download /path/test/dir !-user *'' =
     Inr \<lparr>path = ''/path/test/dir'', scope = PermissionScopeDownload,
          acl = \<lparr>allowed = \<lparr>all = True, users = [], groups = [], flags = []\<rparr>,
                 blocked = \<lparr>all = False, users = [''user''], groups = [], flags = []\<rparr>\<rparr>\<rparr>"
  "NewRule T ''notexist /path/test/dir !-user *'' =
     Inl (ErrorNew (''unknown permission scope '' @ quoted ''notexist''))"
  "NewRule T ''bad'' = Inl (ErrorNew ''rule requires minimum of 3 fields'')"
  "NewRule T ''bad line'' = Inl (ErrorNew ''rule requires minimum of 3 fields'')"
  by code_simp+

end
